theory Spec2Isabelle
  imports Main "HOL-Library.Sublist"
begin

section \<open>Values, closures and effects of a View\<close>

text \<open>
  The embedding follows \<^verbatim>\<open>packages/ckeditor5-ui/src/ui/view.js\<close>. A View is a record of
  its fields; every method takes the record and returns a result together with the updated
  record, so that what a method did before it threw is still visible. Functions of the
  program are data: an opaque function (a callback of the caller, a DOM updater of the
  template compiler) is a name whose calls are logged and whose return value is given by an
  environment \<open>ret\<close> (an opaque function returns, and does not call back into the View);
  the closures the View itself creates are constructors that carry what the closure
  captured.
\<close>

type_synonym element = nat

datatype domevent = DomEvent nat element

fun target :: "domevent \<Rightarrow> element" where
  "target (DomEvent i t) = t"

datatype jsval =
    Undefined
  | Null
  | Str string
  | Num int
  | ElemObj element
  | EvtObj domevent
  | ModelObj

text \<open>An opaque function: one of the caller, or a DOM updater made by the template compiler.\<close>

datatype fnref = UserFn nat | TextUpdater | AttrUpdater string

text \<open>
  A value of the \<open>on\<close> map of a template definition: an event name, a callback, an array of
  those, or (after \<open>prepareListeners\<close>) the function returned by
  \<open>getDOMListenerAttacher v\<close>, which captured \<open>v\<close>.
\<close>

datatype onval =
    EvtName string
  | Callback nat
  | DOMListenerAttacher onval
  | ArrayOf "onval list"

text \<open>
  The two listener closures of the file: \<open>onModelChange\<close> of a binding (it captured the
  cell of \<open>bind\<close>'s variable \<open>callback\<close>, the element and the DOM updater), and the arrow
  function of line 201 (it captured \<open>evtNameOrCallback\<close> and \<open>selector\<close>).
\<close>

datatype handler =
    OnModelChange nat element fnref
  | DOMListener onval "string option"

type_synonym subscription = "jsval \<times> string option \<times> handler"

datatype region = Region string

datatype js_error = CKEditorError string nat | TypeError | SyntaxError

datatype event =
    Created element string
  | Removed element
  | Subscribed jsval "string option" handler
  | Called fnref element jsval
  | Invoked nat "jsval list"
  | Fired onval jsval
  | RegionRemoved region
  | RegionDestroyed region
  | StoppedListening

text \<open>
  A field of a template node (its text or an attribute): a constant, or the attachment
  function returned by \<open>bind\<close>, which captured the cell of \<open>callback\<close> and the property.
\<close>

datatype field = Static string | Bound nat string

text \<open>A template definition: tag, text, attributes, the \<open>on\<close> map and the children.\<close>

datatype tdef =
  TDef string "field option" "(string \<times> field) list" "(string \<times> onval) list" "tdef list"

fun tag_of :: "tdef \<Rightarrow> string" where
  "tag_of (TDef tg tx attrs on children) = tg"

fun on_of :: "tdef \<Rightarrow> (string \<times> onval) list" where
  "on_of (TDef tg tx attrs on children) = on"

fun children_of :: "tdef \<Rightarrow> tdef list" where
  "children_of (TDef tg tx attrs on children) = children"

text \<open>
  The View. \<open>self\<close> is the identity of the object; \<open>u_el\<close> and \<open>u_template\<close> are the
  fields \<open>_el\<close> and \<open>_template\<close>; \<open>listeners\<close> is what \<open>listenTo\<close> has registered;
  \<open>cells\<close> holds the variable \<open>callback\<close> of every activation of \<open>bind\<close>;
  \<open>next_el\<close> is the next element \<open>document.createElement\<close> returns; \<open>trace\<close> logs
  the effects on the collaborators, in order.
\<close>

record view =
  self :: nat
  model :: "(string \<times> jsval) list option"
  regions :: "region list"
  u_el :: "element option"
  u_template :: "tdef option"
  template :: "tdef option"
  listeners :: "subscription list"
  cells :: "fnref option list"
  next_el :: nat
  trace :: "event list"

type_synonym 'a result = "(js_error + 'a) \<times> view"

definition log :: "event \<Rightarrow> view \<Rightarrow> view" where
  "log e s = s\<lparr>trace := trace s @ [e]\<rparr>"

text \<open>
  The constructor (lines 31 to 51): the model wraps the given attributes, the regions are
  empty, nothing is rendered. \<open>template\<close> is what the concrete view subtype configured.
\<close>

definition View :: "nat \<Rightarrow> tdef option \<Rightarrow> (string \<times> jsval) list \<Rightarrow> view" where
  "View i t attrs =
     \<lparr>self = i, model = Some attrs, regions = [], u_el = None, u_template = None,
      template = t, listeners = [], cells = [], next_el = 0, trace = []\<rparr>"

subsection \<open>The collaborators\<close>

text \<open>
  Modelled from the spec: the observable model (\<open>model.js\<close> is not among the sources). It
  holds named properties; reading a property that is not there gives \<open>undefined\<close>.
\<close>

definition prop_of :: "(string \<times> jsval) list \<Rightarrow> string \<Rightarrow> jsval" where
  "prop_of m p = (case map_of m p of None \<Rightarrow> Undefined | Some v \<Rightarrow> v)"

text \<open>
  Modelled from the spec: \<open>listenTo\<close> of the emitter mixin (\<open>ui/domemittermixin.js\<close> is
  not among the sources) subscribes a handler to an event of an emitter on behalf of the
  View. What it does with an emitter that is null is not in the spec; here it subscribes.
\<close>

definition listenTo :: "jsval \<Rightarrow> string option \<Rightarrow> handler \<Rightarrow> view \<Rightarrow> view" where
  "listenTo em n h s =
     s\<lparr>listeners := listeners s @ [(em, n, h)], trace := trace s @ [Subscribed em n h]\<rparr>"

text \<open>
  Modelled from the spec: \<open>stopListening\<close> of the emitter mixin revokes every subscription
  of the View.
\<close>

definition stopListening :: "view \<Rightarrow> view" where
  "stopListening s = s\<lparr>listeners := [], trace := trace s @ [StoppedListening]\<rparr>"

text \<open>
  Modelled from the spec: \<open>fire\<close> of the emitter mixin fires an application event on the
  View, with a payload.
\<close>

definition fire :: "onval \<Rightarrow> jsval \<Rightarrow> view \<Rightarrow> view" where
  "fire v x s = log (Fired v x) s"

text \<open>
  Modelled from the spec: \<open>remove\<close> of the region collection (\<open>namedcollection.js\<close> is
  not among the sources) takes the item out of the ordered collection and yields it.
\<close>

definition regions_remove :: "region \<Rightarrow> view \<Rightarrow> view" where
  "regions_remove r s = s\<lparr>regions := remove1 r (regions s), trace := trace s @ [RegionRemoved r]\<rparr>"

text \<open>
  Modelled from the spec: \<open>destroy\<close> of a region (the regions are not among the sources)
  is an effect on the region.
\<close>

definition region_destroy :: "region \<Rightarrow> view \<Rightarrow> view" where
  "region_destroy r s = log (RegionDestroyed r) s"

subsection \<open>bind (lines 71 to 101)\<close>

text \<open>
  \<open>bind\<close> allocates the cell of its variable \<open>callback\<close> (\<open>None\<close> when no callback was
  given) and returns the attachment function, a \<open>Bound\<close> field.
\<close>

definition bind :: "string \<Rightarrow> fnref option \<Rightarrow> view \<Rightarrow> field \<times> view" where
  "bind property callback s =
     (Bound (length (cells s)) property, s\<lparr>cells := cells s @ [callback]\<rparr>)"

definition cell :: "view \<Rightarrow> nat \<Rightarrow> fnref option" where
  "cell s c = (if c < length (cells s) then cells s ! c else None)"

text \<open>
  \<open>onModelChange\<close> (lines 93 to 99): call the callback, and call the DOM updater when the
  callback returned something other than \<open>undefined\<close>. A cell that holds no function
  makes the call of \<open>callback\<close> a TypeError.
\<close>

definition onModelChange ::
  "(fnref \<Rightarrow> element \<Rightarrow> jsval \<Rightarrow> jsval) \<Rightarrow> nat \<Rightarrow> element \<Rightarrow> fnref \<Rightarrow> jsval \<Rightarrow> view \<Rightarrow> unit result"
where
  "onModelChange ret c el domUpdater val s =
     (case cell s c of
        None \<Rightarrow> (Inl TypeError, s)
      | Some callback \<Rightarrow>
          (let processedValue = ret callback el val;
               s1 = log (Called callback el val) s
           in if processedValue \<noteq> Undefined
              then (Inr (), log (Called domUpdater el processedValue) s1)
              else (Inr (), s1)))"

text \<open>
  The attachment function (lines 83 to 100), called with an element and a DOM updater:
  line 85 assigns to the variable \<open>callback\<close> of \<open>bind\<close>, line 88 subscribes, line 91
  reads the property of the model (a TypeError when the model is null) and calls
  \<open>onModelChange\<close>.
\<close>

definition attachModel ::
  "(fnref \<Rightarrow> element \<Rightarrow> jsval \<Rightarrow> jsval) \<Rightarrow> nat \<Rightarrow> string \<Rightarrow> element \<Rightarrow> fnref \<Rightarrow> view \<Rightarrow> unit result"
where
  "attachModel ret c property el domUpdater s =
     (let s1 = s\<lparr>cells := (cells s)[c := (case cell s c of Some f \<Rightarrow> Some f | None \<Rightarrow> Some domUpdater)]\<rparr>;
          s2 = listenTo (case model s1 of None \<Rightarrow> Null | Some m \<Rightarrow> ModelObj)
                 (Some (''change:'' @ property)) (OnModelChange c el domUpdater) s1
      in case model s2 of
           None \<Rightarrow> (Inl TypeError, s2)
         | Some m \<Rightarrow> onModelChange ret c el domUpdater (prop_of m property) s2)"

subsection \<open>prepareListeners (lines 156 to 257)\<close>

definition getDOMListenerAttacher :: "onval \<Rightarrow> onval" where
  "getDOMListenerAttacher evtNameOrCallback = DOMListenerAttacher evtNameOrCallback"

text \<open>The body of the loop of lines 226 to 249, for one value of the \<open>on\<close> map.\<close>

fun prepare_on :: "onval \<Rightarrow> onval" where
  "prepare_on (ArrayOf vs) = ArrayOf (map getDOMListenerAttacher vs)"
| "prepare_on v = getDOMListenerAttacher v"

fun prepareElementListeners :: "tdef \<Rightarrow> tdef" where
  "prepareElementListeners (TDef tg tx attrs on children) =
     TDef tg tx attrs (map (\<lambda>(domEvtName, v). (domEvtName, prepare_on v)) on)
       (map prepareElementListeners children)"

definition prepareListeners :: "view \<Rightarrow> view" where
  "prepareListeners s =
     (case template s of
        None \<Rightarrow> s
      | Some t \<Rightarrow> s\<lparr>template := Some (prepareElementListeners t)\<rparr>)"

text \<open>
  The function returned by \<open>getDOMListenerAttacher v\<close> (lines 199 to 210), called with
  \<open>(el, domEvtName, selector)\<close>: it subscribes the listener of line 201.
\<close>

definition attachDOMListener :: "onval \<Rightarrow> jsval \<Rightarrow> string option \<Rightarrow> string option \<Rightarrow> view \<Rightarrow> view" where
  "attachDOMListener evtNameOrCallback el domEvtName selector s =
     listenTo el domEvtName (DOMListener evtNameOrCallback selector) s"

fun is_function :: "onval \<Rightarrow> bool" where
  "is_function (Callback i) = True"
| "is_function (DOMListenerAttacher v) = True"
| "is_function v = False"

text \<open>\<open>!selector\<close>: no selector, or the empty string.\<close>

fun no_selector :: "string option \<Rightarrow> bool" where
  "no_selector None = True"
| "no_selector (Some sel) = (sel = [])"

text \<open>
  Lines 203 to 207: call \<open>evtNameOrCallback\<close> with the native event when it is a
  function, fire it on the View otherwise. A callback of the caller is logged; an attacher
  called this way runs with the native event as \<open>el\<close> and nothing else.
\<close>

fun listener_action :: "onval \<Rightarrow> jsval \<Rightarrow> view \<Rightarrow> view" where
  "listener_action (Callback i) domEvt s = log (Invoked i [domEvt]) s"
| "listener_action (DOMListenerAttacher v) domEvt s = attachDOMListener v domEvt None None s"
| "listener_action v domEvt s = fire v domEvt s"

text \<open>
  The listener of lines 201 to 209, called with the native event. \<open>matches\<close> is
  \<open>domEvt.target.matches\<close> of the DOM: it tells whether the target matches the selector,
  and it throws, a TypeError for a target that has no \<open>matches\<close> (a node that is no
  element, or no target at all) and a SyntaxError for a selector the DOM rejects; the
  listener does not catch the error. Reading \<open>target\<close> of something that is no event is a TypeError.
\<close>

definition domListener ::
  "(element \<Rightarrow> string \<Rightarrow> js_error + bool) \<Rightarrow> onval \<Rightarrow> string option \<Rightarrow> jsval \<Rightarrow> view \<Rightarrow> unit result"
where
  "domListener matches evtNameOrCallback selector domEvt s =
     (if no_selector selector then (Inr (), listener_action evtNameOrCallback domEvt s)
      else (case domEvt of
              EvtObj e \<Rightarrow>
                (case matches (target e) (the selector) of
                   Inl err \<Rightarrow> (Inl err, s)
                 | Inr b \<Rightarrow>
                     (if b then (Inr (), listener_action evtNameOrCallback domEvt s)
                      else (Inr (), s)))
            | _ \<Rightarrow> (Inl TypeError, s)))"

subsection \<open>Delivering events\<close>

text \<open>
  Modelled from the spec: an emitter calls a handler with the event and its payload, the
  new value of the property or the native event.
\<close>

fun run_handler ::
  "(fnref \<Rightarrow> element \<Rightarrow> jsval \<Rightarrow> jsval) \<Rightarrow> (element \<Rightarrow> string \<Rightarrow> js_error + bool) \<Rightarrow> handler \<Rightarrow> jsval \<Rightarrow> view \<Rightarrow> unit result"
where
  "run_handler ret matches (OnModelChange c el domUpdater) x s = onModelChange ret c el domUpdater x s"
| "run_handler ret matches (DOMListener v selector) x s = domListener matches v selector x s"

text \<open>
  Modelled from the spec: the handlers are called one after the other; an error of a
  handler propagates.
\<close>

fun run_all ::
  "(fnref \<Rightarrow> element \<Rightarrow> jsval \<Rightarrow> jsval) \<Rightarrow> (element \<Rightarrow> string \<Rightarrow> js_error + bool) \<Rightarrow> handler list \<Rightarrow> jsval \<Rightarrow> view \<Rightarrow> unit result"
where
  "run_all ret matches [] x s = (Inr (), s)"
| "run_all ret matches (h # hs) x s =
     (case run_handler ret matches h x s of
        (Inl e, s1) \<Rightarrow> (Inl e, s1)
      | (Inr u, s1) \<Rightarrow> run_all ret matches hs x s1)"

text \<open>
  Modelled from the spec: the handlers subscribed to an event of an emitter, in the order
  of subscription.
\<close>

definition subscribed :: "jsval \<Rightarrow> string \<Rightarrow> view \<Rightarrow> handler list" where
  "subscribed em n s = map (\<lambda>(e, k, h). h) (filter (\<lambda>(e, k, h). e = em \<and> k = Some n) (listeners s))"

text \<open>
  Modelled from the spec: an emitter delivers an event to the handlers subscribed to it at
  that moment.
\<close>

definition emit ::
  "(fnref \<Rightarrow> element \<Rightarrow> jsval \<Rightarrow> jsval) \<Rightarrow> (element \<Rightarrow> string \<Rightarrow> js_error + bool) \<Rightarrow> jsval \<Rightarrow> string \<Rightarrow> jsval \<Rightarrow> view \<Rightarrow> unit result"
where
  "emit ret matches em n x s = run_all ret matches (subscribed em n s) x s"

text \<open>
  Modelled from the spec: a change notification of the model for a property is the event
  \<open>change:property\<close> of the model, with the new value.
\<close>

definition notify_change ::
  "(fnref \<Rightarrow> element \<Rightarrow> jsval \<Rightarrow> jsval) \<Rightarrow> (element \<Rightarrow> string \<Rightarrow> js_error + bool) \<Rightarrow> string \<Rightarrow> jsval \<Rightarrow> view \<Rightarrow> unit result"
where
  "notify_change ret matches property val s = emit ret matches ModelObj (''change:'' @ property) val s"

text \<open>
  Modelled from the spec: a native event dispatched on an element is delivered to the
  listeners of the element for its name.
\<close>

definition dispatch ::
  "(fnref \<Rightarrow> element \<Rightarrow> jsval \<Rightarrow> jsval) \<Rightarrow> (element \<Rightarrow> string \<Rightarrow> js_error + bool) \<Rightarrow> element \<Rightarrow> string \<Rightarrow> domevent \<Rightarrow> view \<Rightarrow> unit result"
where
  "dispatch ret matches el n e s = emit ret matches (ElemObj el) n (EvtObj e) s"

subsection \<open>The template compiler\<close>

text \<open>
  Modelled from the spec: the key of an \<open>on\<close> entry is \<open>domEventName\<close> or
  \<open>domEventName@cssSelector\<close>.
\<close>

definition split_key :: "string \<Rightarrow> string \<times> string option" where
  "split_key k =
     (takeWhile (\<lambda>c. c \<noteq> CHR ''@'') k,
      case dropWhile (\<lambda>c. c \<noteq> CHR ''@'') k of [] \<Rightarrow> None | c # sel \<Rightarrow> Some sel)"

text \<open>
  Modelled from the spec: the template compiler calls a value of the \<open>on\<close> map with the
  element, the name of the native event and the selector. An attacher subscribes; a
  function of the caller is called; anything else is no function.
\<close>

fun call_attacher :: "onval \<Rightarrow> element \<Rightarrow> string \<Rightarrow> string option \<Rightarrow> view \<Rightarrow> unit result" where
  "call_attacher (DOMListenerAttacher v) el n sel s =
     (Inr (), attachDOMListener v (ElemObj el) (Some n) sel s)"
| "call_attacher (Callback i) el n sel s =
     (Inr (), log (Invoked i [ElemObj el, Str n, (case sel of None \<Rightarrow> Undefined | Some x \<Rightarrow> Str x)]) s)"
| "call_attacher v el n sel s = (Inl TypeError, s)"

text \<open>
  Modelled from the spec: the elements of an array value are called in the order of the
  declaration; the first error propagates.
\<close>

fun call_attachers :: "onval list \<Rightarrow> element \<Rightarrow> string \<Rightarrow> string option \<Rightarrow> view \<Rightarrow> unit result" where
  "call_attachers [] el n sel s = (Inr (), s)"
| "call_attachers (v # vs) el n sel s =
     (case call_attacher v el n sel s of
        (Inl e, s1) \<Rightarrow> (Inl e, s1)
      | (Inr u, s1) \<Rightarrow> call_attachers vs el n sel s1)"

text \<open>
  Modelled from the spec: the template compiler goes through the \<open>on\<close> map of a node and
  calls every value, or every element of an array value, with the two parts of the key.
\<close>

fun render_on :: "(string \<times> onval) list \<Rightarrow> element \<Rightarrow> view \<Rightarrow> unit result" where
  "render_on [] el s = (Inr (), s)"
| "render_on ((k, v) # on) el s =
     (case call_attachers (case v of ArrayOf vs \<Rightarrow> vs | _ \<Rightarrow> [v]) el (fst (split_key k)) (snd (split_key k)) s of
        (Inl e, s1) \<Rightarrow> (Inl e, s1)
      | (Inr u, s1) \<Rightarrow> render_on on el s1)"

text \<open>
  Modelled from the spec: a bound field is attached by calling its attachment function
  with the element and the DOM updater of the field; a constant field has no effect on the
  View.
\<close>

fun render_field ::
  "(fnref \<Rightarrow> element \<Rightarrow> jsval \<Rightarrow> jsval) \<Rightarrow> field \<Rightarrow> element \<Rightarrow> fnref \<Rightarrow> view \<Rightarrow> unit result"
where
  "render_field ret (Static x) el domUpdater s = (Inr (), s)"
| "render_field ret (Bound c property) el domUpdater s = attachModel ret c property el domUpdater s"

text \<open>
  Modelled from the spec: the attributes of a node are attached one after the other, each
  with the DOM updater of its attribute.
\<close>

fun render_attributes ::
  "(fnref \<Rightarrow> element \<Rightarrow> jsval \<Rightarrow> jsval) \<Rightarrow> (string \<times> field) list \<Rightarrow> element \<Rightarrow> view \<Rightarrow> unit result"
where
  "render_attributes ret [] el s = (Inr (), s)"
| "render_attributes ret ((a, f) # attrs) el s =
     (case render_field ret f el (AttrUpdater a) s of
        (Inl e, s1) \<Rightarrow> (Inl e, s1)
      | (Inr u, s1) \<Rightarrow> render_attributes ret attrs el s1)"

text \<open>
  Modelled from the spec: \<open>ui/template.js\<close> is not among the sources. Rendering a
  definition creates a new element, attaches its text, its attributes and its listeners,
  and renders the children; the first error propagates.
\<close>

fun renderElement ::
    "(fnref \<Rightarrow> element \<Rightarrow> jsval \<Rightarrow> jsval) \<Rightarrow> tdef \<Rightarrow> view \<Rightarrow> element result"
  and renderChildren ::
    "(fnref \<Rightarrow> element \<Rightarrow> jsval \<Rightarrow> jsval) \<Rightarrow> tdef list \<Rightarrow> view \<Rightarrow> unit result"
where
  "renderElement ret (TDef tg tx attrs on children) s =
     (let el = next_el s;
          s0 = log (Created el tg) (s\<lparr>next_el := Suc el\<rparr>)
      in case (case tx of None \<Rightarrow> (Inr (), s0) | Some f \<Rightarrow> render_field ret f el TextUpdater s0) of
           (Inl e, s1) \<Rightarrow> (Inl e, s1)
         | (Inr u, s1) \<Rightarrow>
             (case render_attributes ret attrs el s1 of
                (Inl e, s2) \<Rightarrow> (Inl e, s2)
              | (Inr u, s2) \<Rightarrow>
                  (case render_on on el s2 of
                     (Inl e, s3) \<Rightarrow> (Inl e, s3)
                   | (Inr u, s3) \<Rightarrow>
                       (case renderChildren ret children s3 of
                          (Inl e, s4) \<Rightarrow> (Inl e, s4)
                        | (Inr u, s4) \<Rightarrow> (Inr el, s4)))))"
| "renderChildren ret [] s = (Inr (), s)"
| "renderChildren ret (d # ds) s =
     (case renderElement ret d s of
        (Inl e, s1) \<Rightarrow> (Inl e, s1)
      | (Inr el, s1) \<Rightarrow> renderChildren ret ds s1)"

subsection \<open>render, the element accessor and destroy\<close>

text \<open>
  Modelled from the spec: \<open>render\<close> of the compiled template renders the definition it
  holds. The compiled template is created from \<open>this.template\<close> right after the listeners
  are prepared, so \<open>u_template\<close> holds the same definition as \<open>template\<close>.
\<close>

definition template_render :: "(fnref \<Rightarrow> element \<Rightarrow> jsval \<Rightarrow> jsval) \<Rightarrow> view \<Rightarrow> element result" where
  "template_render ret s =
     (case u_template s of
        None \<Rightarrow> (Inl TypeError, s)
      | Some t \<Rightarrow> renderElement ret t s)"

text \<open>\<open>render\<close> (lines 108 to 128).\<close>

definition render :: "(fnref \<Rightarrow> element \<Rightarrow> jsval \<Rightarrow> jsval) \<Rightarrow> view \<Rightarrow> element result" where
  "render ret s =
     (case template s of
        None \<Rightarrow>
          (Inl (CKEditorError ''ui-view-notemplate: This View implements no template to render.'' (self s)), s)
      | Some t0 \<Rightarrow>
          (let s1 = prepareListeners s;
               s2 = s1\<lparr>u_template := template s1\<rparr>
           in case template_render ret s2 of
                (Inl e, s3) \<Rightarrow> (Inl e, s3)
              | (Inr el, s3) \<Rightarrow> (Inr el, s3\<lparr>u_el := Some el\<rparr>)))"

text \<open>The accessor \<open>el\<close> (lines 58 to 60): \<open>this._el || this.render()\<close>.\<close>

definition get_el :: "(fnref \<Rightarrow> element \<Rightarrow> jsval \<Rightarrow> jsval) \<Rightarrow> view \<Rightarrow> element result" where
  "get_el ret s = (case u_el s of Some e \<Rightarrow> (Inr e, s) | None \<Rightarrow> render ret s)"

text \<open>
  Line 143: every region of the collection is removed from it and the removed item is
  destroyed. \<open>forEach\<close> of the collection is modelled from the spec: it visits the regions
  the collection holds, in their order.
\<close>

fun destroy_regions :: "region list \<Rightarrow> view \<Rightarrow> view" where
  "destroy_regions [] s = s"
| "destroy_regions (r # rs) s = destroy_regions rs (region_destroy r (regions_remove r s))"

text \<open>\<open>destroy\<close> (lines 133 to 147).\<close>

definition destroy :: "(fnref \<Rightarrow> element \<Rightarrow> jsval \<Rightarrow> jsval) \<Rightarrow> view \<Rightarrow> unit result" where
  "destroy ret s =
     (let s1 = s\<lparr>model := None\<rparr>
      in case (if template s1 \<noteq> None
               then (case get_el ret s1 of
                       (Inl e, s2) \<Rightarrow> (Inl e, s2)
                     | (Inr el, s2) \<Rightarrow> (Inr (), log (Removed el) s2))
               else (Inr (), s1)) of
           (Inl e, s2) \<Rightarrow> (Inl e, s2)
         | (Inr u, s2) \<Rightarrow> (Inr (), stopListening (destroy_regions (regions s2) s2)))"

subsection \<open>Sequences of operations on a View\<close>

text \<open>
  What a program can do with a View: the public methods, the calls of the closures the View
  hands out, a new value of a property of the model, and the events of the model and of the
  DOM. An operation that throws leaves the View as it was at the throw.
\<close>

datatype op =
    Bind string "fnref option"
  | Attach nat string element fnref
  | AttachListener onval jsval "string option" "string option"
  | PrepareListeners
  | Render
  | GetEl
  | Destroy
  | AddRegion region
  | Mutate string jsval
  | Notify string jsval
  | Dispatch element string domevent

fun step ::
  "(fnref \<Rightarrow> element \<Rightarrow> jsval \<Rightarrow> jsval) \<Rightarrow> (element \<Rightarrow> string \<Rightarrow> js_error + bool) \<Rightarrow> op \<Rightarrow> view \<Rightarrow> view"
where
  "step ret matches (Bind property callback) s = snd (bind property callback s)"
| "step ret matches (Attach c property el domUpdater) s = snd (attachModel ret c property el domUpdater s)"
| "step ret matches (AttachListener v el n sel) s = attachDOMListener v el n sel s"
| "step ret matches PrepareListeners s = prepareListeners s"
| "step ret matches Render s = snd (render ret s)"
| "step ret matches GetEl s = snd (get_el ret s)"
| "step ret matches Destroy s = snd (destroy ret s)"
| "step ret matches (AddRegion r) s = s\<lparr>regions := regions s @ [r]\<rparr>"
| "step ret matches (Mutate property val) s =
     (case model s of None \<Rightarrow> s | Some m \<Rightarrow> s\<lparr>model := Some ((property, val) # m)\<rparr>)"
| "step ret matches (Notify property val) s = snd (notify_change ret matches property val s)"
| "step ret matches (Dispatch el n e) s = snd (dispatch ret matches el n e s)"

fun exec ::
  "(fnref \<Rightarrow> element \<Rightarrow> jsval \<Rightarrow> jsval) \<Rightarrow> (element \<Rightarrow> string \<Rightarrow> js_error + bool) \<Rightarrow> op list \<Rightarrow> view \<Rightarrow> view"
where
  "exec ret matches [] s = s"
| "exec ret matches (x # xs) s = exec ret matches xs (step ret matches x s)"

subsection \<open>Notions used in the statements\<close>

text \<open>
  The calls one run of \<open>onModelChange\<close> makes, for a callback, a DOM updater, an element
  and a value: the callback, and then the DOM updater unless the callback returned
  \<open>undefined\<close>.
\<close>

definition handler_calls ::
  "(fnref \<Rightarrow> element \<Rightarrow> jsval \<Rightarrow> jsval) \<Rightarrow> fnref \<Rightarrow> fnref \<Rightarrow> element \<Rightarrow> jsval \<Rightarrow> event list"
where
  "handler_calls ret callback domUpdater el val =
     Called callback el val #
       (if ret callback el val = Undefined then []
        else [Called domUpdater el (ret callback el val)])"

text \<open>
  What attaching and handling leave alone: they subscribe, log and fill cells, and the
  template compiler also creates elements.
\<close>

definition frame :: "view \<Rightarrow> view \<Rightarrow> bool" where
  "frame s s' \<longleftrightarrow>
     self s' = self s \<and> model s' = model s \<and> regions s' = regions s \<and> u_el s' = u_el s \<and>
     u_template s' = u_template s \<and> template s' = template s \<and> next_el s \<le> next_el s' \<and>
     length (cells s') = length (cells s) \<and>
     (\<forall>c f. cell s c = Some f \<longrightarrow> cell s' c = Some f) \<and>
     prefix (trace s) (trace s') \<and> prefix (listeners s) (listeners s')"

text \<open>
  What every operation on a View leaves alone: the identity of the View, whether a template
  is configured, the cached element of a View without a template, and a callback that a
  cell already holds.
\<close>

definition keeps :: "view \<Rightarrow> view \<Rightarrow> bool" where
  "keeps s s' \<longleftrightarrow>
     self s' = self s \<and> (template s' = None) = (template s = None) \<and>
     (template s = None \<longrightarrow> u_el s' = u_el s) \<and>
     (\<forall>c f. cell s c = Some f \<longrightarrow> cell s' c = Some f)"

text \<open>
  A template definition whose bound fields all refer to a cell among the first \<open>n\<close>, that
  is, to an activation of \<open>bind\<close> that has taken place.
\<close>

fun field_ok :: "nat \<Rightarrow> field \<Rightarrow> bool" where
  "field_ok n (Static x) = True"
| "field_ok n (Bound c property) = (c < n)"

fun bound_ok :: "nat \<Rightarrow> tdef \<Rightarrow> bool" where
  "bound_ok n (TDef tg tx attrs on children) =
     ((case tx of None \<Rightarrow> True | Some f \<Rightarrow> field_ok n f) \<and>
      list_all (\<lambda>(a, f). field_ok n f) attrs \<and>
      list_all (bound_ok n) children)"

text \<open>
  A template definition in which every value of an \<open>on\<close> map is a function, or an array
  of functions: what the template compiler can call.
\<close>

fun callable :: "tdef \<Rightarrow> bool" where
  "callable (TDef tg tx attrs on children) =
     (list_all (\<lambda>(k, v). list_all is_function (case v of ArrayOf vs \<Rightarrow> vs | _ \<Rightarrow> [v])) on \<and>
      list_all callable children)"

text \<open>The events of removing and destroying the regions, in the order of the collection.\<close>

definition region_events :: "region list \<Rightarrow> event list" where
  "region_events rs = concat (map (\<lambda>r. [RegionRemoved r, RegionDestroyed r]) rs)"

subsection \<open>Concrete environments and views\<close>

text \<open>
  A DOM in which the text updater returns the value it has set (an assignment expression)
  and every other function returns \<open>undefined\<close>.
\<close>

definition ret0 :: "fnref \<Rightarrow> element \<Rightarrow> jsval \<Rightarrow> jsval" where
  "ret0 f el v = (case f of TextUpdater \<Rightarrow> v | _ \<Rightarrow> Undefined)"

text \<open>
  A DOM in which every function of the caller returns the string \<open>shown\<close> and every DOM
  updater returns \<open>undefined\<close>.
\<close>

definition ret1 :: "fnref \<Rightarrow> element \<Rightarrow> jsval \<Rightarrow> jsval" where
  "ret1 f el v = (case f of UserFn i \<Rightarrow> Str ''shown'' | _ \<Rightarrow> Undefined)"

text \<open>
  A DOM in which the selector \<open>span[\<close> is rejected, node 9 is no element, and
  element 1 is the only one that matches any other selector.
\<close>

definition matches0 :: "element \<Rightarrow> string \<Rightarrow> js_error + bool" where
  "matches0 e sel =
     (if sel = ''span['' then Inl SyntaxError
      else if e = 9 then Inl TypeError
      else Inr (e = 1))"

text \<open>A view with a template and no binding, never rendered.\<close>

definition plain_view :: view where
  "plain_view = View 7 (Some (TDef ''div'' None [] [] [])) []"

text \<open>A view without a template.\<close>

definition bare_view :: view where
  "bare_view = View 7 None [(''x'', Str ''a'')]"

text \<open>
  A view whose template binds its text to the property \<open>x\<close>, with one region, never
  rendered: \<open>this.template = { tag: 'p', text: this.bind( 'x' ) }\<close>.
\<close>

definition bound_view :: view where
  "bound_view =
     (let (a, s) = bind ''x'' None (View 7 None [(''x'', Str ''a'')])
      in s\<lparr>template := Some (TDef ''p'' (Some a) [] [] []), regions := [Region ''r'']\<rparr>)"

text \<open>A view whose template declares a listener: \<open>on: { 'click@span': callback }\<close>.\<close>

definition click_view :: view where
  "click_view = View 7 (Some (TDef ''p'' None [] [(''click@span'', Callback 3)] [])) []"

section \<open>What attaching, handling and rendering preserve\<close>

lemma frame_refl [simp]: "frame s s"
  by (simp add: frame_def)

lemma frame_trans: "frame a b \<Longrightarrow> frame b c \<Longrightarrow> frame a c"
  unfolding frame_def by (auto intro: prefix_order.trans)

lemma cell_log [simp]: "cell (log e s) c = cell s c"
  by (simp add: cell_def log_def)

lemma frame_log [simp]: "frame s (log e s)"
  by (simp add: frame_def log_def cell_def)

lemma frame_listenTo [simp]: "frame s (listenTo em n h s)"
  by (simp add: frame_def listenTo_def cell_def)

lemma frame_fire [simp]: "frame s (fire v x s)"
  by (simp add: fire_def)

lemma frame_attachDOMListener [simp]: "frame s (attachDOMListener v el n sel s)"
  by (simp add: attachDOMListener_def)

lemma frame_listener_action [simp]: "frame s (listener_action v x s)"
  by (cases v) simp_all

lemma frame_domListener [simp]: "frame s (snd (domListener matches v sel x s))"
  by (simp add: domListener_def split: jsval.splits sum.splits)

lemma frame_onModelChange [simp]: "frame s (snd (onModelChange ret c el upd v s))"
  by (simp add: onModelChange_def Let_def frame_trans [OF frame_log frame_log] split: option.splits)

lemma frame_fill_cell:
  "frame s (s\<lparr>cells := (cells s)[c := (case cell s c of Some f \<Rightarrow> Some f | None \<Rightarrow> Some d)]\<rparr>)"
  by (auto simp: frame_def cell_def nth_list_update split: option.splits)

lemma frame_attachModel [simp]: "frame s (snd (attachModel ret c p el upd s))"
proof -
  let ?s1 = "s\<lparr>cells := (cells s)[c := (case cell s c of Some f \<Rightarrow> Some f | None \<Rightarrow> Some upd)]\<rparr>"
  let ?s2 = "listenTo (case model ?s1 of None \<Rightarrow> Null | Some m \<Rightarrow> ModelObj)
                 (Some (''change:'' @ p)) (OnModelChange c el upd) ?s1"
  have a: "frame s ?s2"
    by (rule frame_trans [OF frame_fill_cell frame_listenTo])
  have b: "frame ?s2 (snd (attachModel ret c p el upd s))"
    by (simp add: attachModel_def Let_def split: option.splits)
  from a b show ?thesis by (rule frame_trans)
qed


lemma frame_run_handler [simp]: "frame s (snd (run_handler ret matches h x s))"
  by (cases h) simp_all

lemma frame_run_all: "frame s (snd (run_all ret matches hs x s))"
proof (induction hs arbitrary: s)
  case Nil
  show ?case by simp
next
  case (Cons h hs)
  obtain r s1 where h: "run_handler ret matches h x s = (r, s1)"
    by (cases "run_handler ret matches h x s")
  have f1: "frame s s1"
    using frame_run_handler [of s ret matches h x] h by simp
  show ?case
  proof (cases r)
    case (Inl e)
    with h f1 show ?thesis by simp
  next
    case (Inr u)
    with h have "snd (run_all ret matches (h # hs) x s) = snd (run_all ret matches hs x s1)"
      by simp
    with f1 Cons.IH [of s1] show ?thesis
      by (simp add: frame_trans)
  qed
qed

lemma frame_emit [simp]: "frame s (snd (emit ret matches em n x s))"
  by (simp add: emit_def frame_run_all)

lemma frame_call_attacher [simp]: "frame s (snd (call_attacher v el n sel s))"
  by (cases v) simp_all

lemma frame_call_attachers: "frame s (snd (call_attachers vs el n sel s))"
proof (induction vs arbitrary: s)
  case Nil
  show ?case by simp
next
  case (Cons v vs)
  obtain r s1 where h: "call_attacher v el n sel s = (r, s1)"
    by (cases "call_attacher v el n sel s")
  have f1: "frame s s1"
    using frame_call_attacher [of s v el n sel] h by simp
  show ?case
  proof (cases r)
    case (Inl e)
    with h f1 show ?thesis by simp
  next
    case (Inr u)
    with h have "snd (call_attachers (v # vs) el n sel s) = snd (call_attachers vs el n sel s1)"
      by simp
    with f1 Cons.IH [of s1] show ?thesis
      by (simp add: frame_trans)
  qed
qed

lemma frame_render_on: "frame s (snd (render_on on el s))"
proof (induction on arbitrary: s)
  case Nil
  show ?case by simp
next
  case (Cons kv on)
  obtain k v where kv: "kv = (k, v)" by (cases kv)
  let ?c = "call_attachers (case v of ArrayOf vs \<Rightarrow> vs | _ \<Rightarrow> [v]) el (fst (split_key k)) (snd (split_key k)) s"
  obtain r s1 where h: "?c = (r, s1)" by (cases ?c)
  have f1: "frame s s1"
    using frame_call_attachers [of s "case v of ArrayOf vs \<Rightarrow> vs | _ \<Rightarrow> [v]" el "fst (split_key k)" "snd (split_key k)"] h
    by simp
  show ?case
  proof (cases r)
    case (Inl e)
    with h f1 kv show ?thesis by simp
  next
    case (Inr u)
    with h kv have "snd (render_on (kv # on) el s) = snd (render_on on el s1)"
      by simp
    with f1 Cons.IH [of s1] show ?thesis
      by (simp add: frame_trans)
  qed
qed

lemma frame_render_field [simp]: "frame s (snd (render_field ret f el upd s))"
  by (cases f) simp_all

lemma frame_render_attributes: "frame s (snd (render_attributes ret attrs el s))"
proof (induction attrs arbitrary: s)
  case Nil
  show ?case by simp
next
  case (Cons af attrs)
  obtain a f where af: "af = (a, f)" by (cases af)
  obtain r s1 where h: "render_field ret f el (AttrUpdater a) s = (r, s1)"
    by (cases "render_field ret f el (AttrUpdater a) s")
  have f1: "frame s s1"
    using frame_render_field [of s ret f el "AttrUpdater a"] h by simp
  show ?case
  proof (cases r)
    case (Inl e)
    with h f1 af show ?thesis by simp
  next
    case (Inr u)
    with h af have "snd (render_attributes ret (af # attrs) el s) = snd (render_attributes ret attrs el s1)"
      by simp
    with f1 Cons.IH [of s1] show ?thesis
      by (simp add: frame_trans)
  qed
qed

lemma frame_create: "frame s (log (Created (next_el s) tg) (s\<lparr>next_el := Suc (next_el s)\<rparr>))"
  by (simp add: frame_def log_def cell_def)


lemma frame_seq:
  assumes "frame s (snd p)" and "\<And>u s1. frame s1 (snd (k u s1))"
  shows "frame s (snd (case p of (Inl e, s1) \<Rightarrow> (Inl e, s1) | (Inr u, s1) \<Rightarrow> k u s1))"
proof (cases p)
  case (Pair r s1)
  show ?thesis
  proof (cases r)
    case (Inl e)
    with Pair assms(1) show ?thesis by simp
  next
    case (Inr u)
    with Pair assms(1) assms(2) [of s1 u] show ?thesis
      by (simp add: frame_trans)
  qed
qed

lemma frame_renderChildren_if:
  assumes "\<And>d s. d \<in> set ds \<Longrightarrow> frame s (snd (renderElement ret d s))"
  shows "frame s (snd (renderChildren ret ds s))"
  using assms
proof (induction ds arbitrary: s)
  case Nil
  show ?case by simp
next
  case (Cons d ds)
  have "frame s (snd (case renderElement ret d s of (Inl e, s1) \<Rightarrow> (Inl e, s1)
                       | (Inr el, s1) \<Rightarrow> renderChildren ret ds s1))"
    by (rule frame_seq) (simp_all add: Cons)
  then show ?case by simp
qed

lemma frame_text:
  "frame s (snd (case tx of None \<Rightarrow> (Inr (), s) | Some f \<Rightarrow> render_field ret f el TextUpdater s))"
  by (cases tx) simp_all

lemma renderElement_created:
  "frame (log (Created (next_el s) (tag_of t)) (s\<lparr>next_el := Suc (next_el s)\<rparr>))
     (snd (renderElement ret t s))"
proof (induction t arbitrary: s)
  case (TDef tg tx attrs on children)
  have ch: "\<And>s. frame s (snd (renderChildren ret children s))"
  proof (rule frame_renderChildren_if)
    fix d s
    assume "d \<in> set children"
    from TDef.IH [OF this, of s] show "frame s (snd (renderElement ret d s))"
      by (rule frame_trans [OF frame_create])
  qed
  show ?case
    apply (simp only: renderElement.simps Let_def tag_of.simps)
    apply (rule frame_seq)
     apply (rule frame_text)
    apply (rule frame_seq)
     apply (rule frame_render_attributes)
    apply (rule frame_seq)
     apply (rule frame_render_on)
    apply (rule frame_seq)
     apply (rule ch)
    apply simp
    done
qed

lemma frame_renderElement: "frame s (snd (renderElement ret t s))"
  by (rule frame_trans [OF frame_create renderElement_created])

lemma renderElement_Inr:
  assumes "renderElement ret t s = (Inr el, s')"
  shows "el = next_el s"
  using assms by (cases t) (auto simp: Let_def split: prod.splits sum.splits)

lemma renderElement_next_el: "next_el s < next_el (snd (renderElement ret t s))"
  using renderElement_created [of s t ret] by (simp add: frame_def log_def)

lemma renderElement_trace:
  "Created (next_el s) (tag_of t) \<in> set (trace (snd (renderElement ret t s)))"
proof -
  have "prefix (trace s @ [Created (next_el s) (tag_of t)]) (trace (snd (renderElement ret t s)))"
    using renderElement_created [of s t ret] by (simp add: frame_def log_def)
  then show ?thesis
    by (auto simp: prefix_def)
qed

section \<open>render, the accessor and destroy\<close>

lemma render_no_template:
  "template s = None \<Longrightarrow>
   render ret s =
     (Inl (CKEditorError ''ui-view-notemplate: This View implements no template to render.'' (self s)), s)"
  by (simp add: render_def)

lemma render_template:
  assumes "template s = Some t0"
  shows "render ret s =
     (case renderElement ret (prepareElementListeners t0)
             (s\<lparr>template := Some (prepareElementListeners t0),
                u_template := Some (prepareElementListeners t0)\<rparr>) of
        (Inl e, s3) \<Rightarrow> (Inl e, s3)
      | (Inr el, s3) \<Rightarrow> (Inr el, s3\<lparr>u_el := Some el\<rparr>))"
  using assms by (simp add: render_def prepareListeners_def template_render_def Let_def)

lemma render_Inr:
  assumes "render ret s = (Inr el, s')"
  shows "el = next_el s" and "u_el s' = Some el" and "next_el s < next_el s'"
    and "template s' \<noteq> None" and "model s' = model s" and "regions s' = regions s"
    and "\<exists>tg. Created el tg \<in> set (trace s')"
proof -
  from assms obtain t0 where t0: "template s = Some t0"
    by (cases "template s") (auto simp: render_def)
  let ?t = "prepareElementListeners t0"
  let ?s2 = "s\<lparr>template := Some ?t, u_template := Some ?t\<rparr>"
  obtain r s3 where r: "renderElement ret ?t ?s2 = (r, s3)"
    by (cases "renderElement ret ?t ?s2")
  with assms t0 have eq: "r = Inr el" "s' = s3\<lparr>u_el := Some el\<rparr>"
    by (auto simp: render_template split: sum.splits)
  from r eq have re: "renderElement ret ?t ?s2 = (Inr el, s3)" by simp
  have fr: "frame ?s2 s3"
    using frame_renderElement [of ?s2 ret ?t] r by simp
  show "el = next_el s" using renderElement_Inr [OF re] by simp
  show "u_el s' = Some el" using eq by simp
  show "next_el s < next_el s'"
    using renderElement_next_el [of ?s2 ret ?t] r eq by simp
  show "template s' \<noteq> None" using fr eq by (simp add: frame_def)
  show "model s' = model s" using fr eq by (simp add: frame_def)
  show "regions s' = regions s" using fr eq by (simp add: frame_def)
  have "Created (next_el ?s2) (tag_of ?t) \<in> set (trace (snd (renderElement ret ?t ?s2)))"
    by (rule renderElement_trace)
  with r eq renderElement_Inr [OF re] show "\<exists>tg. Created el tg \<in> set (trace s')"
    by auto
qed

lemma get_el_cached: "u_el s = Some e \<Longrightarrow> get_el ret s = (Inr e, s)"
  by (simp add: get_el_def)

lemma get_el_Inr:
  assumes "get_el ret s = (Inr e, s')"
  shows "u_el s' = Some e"
proof (cases "u_el s")
  case None
  with assms have "render ret s = (Inr e, s')" by (simp add: get_el_def)
  then show ?thesis by (rule render_Inr(2))
next
  case (Some x)
  with assms show ?thesis by (simp add: get_el_def)
qed

subsection \<open>The regions\<close>

lemma destroy_regions_fields [simp]:
  "self (destroy_regions rs s) = self s"
  "model (destroy_regions rs s) = model s"
  "u_el (destroy_regions rs s) = u_el s"
  "u_template (destroy_regions rs s) = u_template s"
  "template (destroy_regions rs s) = template s"
  "listeners (destroy_regions rs s) = listeners s"
  "cells (destroy_regions rs s) = cells s"
  "next_el (destroy_regions rs s) = next_el s"
  by (induction rs arbitrary: s) (simp_all add: regions_remove_def region_destroy_def log_def)

lemma destroy_regions_trace:
  "trace (destroy_regions rs s) = trace s @ region_events rs"
  by (induction rs arbitrary: s)
     (simp_all add: regions_remove_def region_destroy_def log_def region_events_def)

lemma destroy_regions_regions:
  "regions (destroy_regions rs s) = foldl (\<lambda>xs r. remove1 r xs) (regions s) rs"
  by (induction rs arbitrary: s) (simp_all add: regions_remove_def region_destroy_def log_def)

lemma remove_all_in_order: "foldl (\<lambda>xs r. remove1 r xs) rs rs = []"
  by (induction rs) simp_all

lemma destroy_regions_empty: "regions (destroy_regions (regions s) s) = []"
  by (simp add: destroy_regions_regions remove_all_in_order)

subsection \<open>destroy\<close>

lemma destroy_no_template:
  "template s = None \<Longrightarrow>
   destroy ret s = (Inr (), stopListening (destroy_regions (regions s) (s\<lparr>model := None\<rparr>)))"
  by (simp add: destroy_def)

lemma destroy_rendered:
  "template s \<noteq> None \<Longrightarrow> u_el s = Some e \<Longrightarrow>
   destroy ret s =
     (Inr (), stopListening (destroy_regions (regions s) (log (Removed e) (s\<lparr>model := None\<rparr>))))"
  by (simp add: destroy_def get_el_def log_def)

lemma destroy_unrendered:
  "template s \<noteq> None \<Longrightarrow> u_el s = None \<Longrightarrow>
   destroy ret s =
     (case render ret (s\<lparr>model := None\<rparr>) of
        (Inl e, s2) \<Rightarrow> (Inl e, s2)
      | (Inr el, s2) \<Rightarrow>
          (Inr (), stopListening (destroy_regions (regions s2) (log (Removed el) s2))))"
  by (simp add: destroy_def get_el_def log_def split: prod.splits sum.splits)

lemma destroy_model: "model (snd (destroy ret s)) = None"
proof (cases "template s = None")
  case True
  then show ?thesis by (simp add: destroy_no_template stopListening_def)
next
  case False
  show ?thesis
  proof (cases "u_el s")
    case (Some e)
    with False show ?thesis by (simp add: destroy_rendered stopListening_def log_def)
  next
    case None
    obtain r s2 where r: "render ret (s\<lparr>model := None\<rparr>) = (r, s2)"
      by (cases "render ret (s\<lparr>model := None\<rparr>)")
    have m: "model s2 = None"
    proof (cases "template s")
      case None
      with False show ?thesis by simp
    next
      case (Some t0)
      let ?t = "prepareElementListeners t0"
      let ?s2 = "s\<lparr>model := None, template := Some ?t, u_template := Some ?t\<rparr>"
      have "frame ?s2 (snd (renderElement ret ?t ?s2))"
        by (rule frame_renderElement)
      then have "model (snd (renderElement ret ?t ?s2)) = None"
        by (simp add: frame_def)
      with r Some show ?thesis
        by (auto simp: render_template split: prod.splits sum.splits)
    qed
    from None False r m show ?thesis
      by (cases r) (simp_all add: destroy_unrendered stopListening_def log_def)
  qed
qed

text \<open>
  When \<open>destroy\<close> returns, the model is null, the collection of regions is empty, no
  subscription is left, and the log ends with the removal and destruction of every region,
  in the order of the collection, and then the revocation of the subscriptions.
\<close>

lemma destroy_returns:
  assumes "destroy ret s = (Inr (), s')"
  shows "model s' = None \<and> regions s' = [] \<and> listeners s' = [] \<and>
         (\<exists>pre. prefix (trace s) pre \<and>
                trace s' = pre @ region_events (regions s) @ [StoppedListening])"
proof -
  have m: "model s' = None"
    using destroy_model [of ret s] assms by simp
  have "\<exists>s2. regions s2 = regions s \<and> prefix (trace s) (trace s2) \<and>
          s' = stopListening (destroy_regions (regions s2) s2)"
  proof (cases "template s = None")
    case True
    with assms show ?thesis
      by (intro exI [of _ "s\<lparr>model := None\<rparr>"]) (simp add: destroy_no_template)
  next
    case False
    show ?thesis
    proof (cases "u_el s")
      case (Some e)
      with False assms show ?thesis
        by (intro exI [of _ "log (Removed e) (s\<lparr>model := None\<rparr>)"])
           (simp add: destroy_rendered, simp add: log_def)
    next
      case None
      obtain r s2 where r: "render ret (s\<lparr>model := None\<rparr>) = (r, s2)"
        by (cases "render ret (s\<lparr>model := None\<rparr>)")
      with None False assms obtain el where el: "r = Inr el"
        and s': "s' = stopListening (destroy_regions (regions s2) (log (Removed el) s2))"
        by (cases r) (simp_all add: destroy_unrendered)
      from r el have rr: "render ret (s\<lparr>model := None\<rparr>) = (Inr el, s2)" by simp
      from False obtain t0 where t0: "template s = Some t0" by auto
      let ?t = "prepareElementListeners t0"
      let ?s2 = "s\<lparr>model := None, template := Some ?t, u_template := Some ?t\<rparr>"
      have fr: "frame ?s2 (snd (renderElement ret ?t ?s2))"
        by (rule frame_renderElement)
      from rr t0 have "trace s2 = trace (snd (renderElement ret ?t ?s2))"
        by (auto simp: render_template split: prod.splits sum.splits)
      with fr have p: "prefix (trace s) (trace s2)"
        by (simp add: frame_def)
      have "prefix (trace s2) (trace (log (Removed el) s2))"
        by (simp add: log_def)
      with p have p2: "prefix (trace s) (trace (log (Removed el) s2))"
        by (rule prefix_order.trans)
      from render_Inr(6) [OF rr] have "regions (log (Removed el) s2) = regions s"
        by (simp add: log_def)
      with p2 s' show ?thesis
        by (intro exI [of _ "log (Removed el) s2"]) (simp add: log_def)
    qed
  qed
  then obtain s2 where s2: "regions s2 = regions s" "prefix (trace s) (trace s2)"
    "s' = stopListening (destroy_regions (regions s2) s2)"
    by blast
  have "trace s' = trace s2 @ region_events (regions s) @ [StoppedListening]"
    using s2 by (simp add: stopListening_def destroy_regions_trace)
  moreover have "regions s' = []"
    using s2(3) by (simp add: stopListening_def destroy_regions_empty)
  moreover have "listeners s' = []"
    using s2(3) by (simp add: stopListening_def)
  ultimately show ?thesis
    using m s2(2) by blast
qed

section \<open>The claims about the lifecycle\<close>

lemma tag_of_prepare [simp]: "tag_of (prepareElementListeners t) = tag_of t"
  by (cases t) simp





text \<open>
  C8, at a View whose template binds its text, that has one region and was never rendered:
  \<open>destroy\<close> drops the model, the accessor renders, the attachment function of the binding
  reads the property of the null model, and the TypeError leaves \<open>destroy\<close> before the
  region is removed and before the subscriptions are revoked.
\<close>

theorem destroy_throws_before_regions:
  "template bound_view = Some (TDef ''p'' (Some (Bound 0 ''x'')) [] [] []) \<and>
   u_el bound_view = None \<and> regions bound_view = [Region ''r''] \<and>
   fst (destroy ret0 bound_view) = Inl TypeError \<and>
   model (snd (destroy ret0 bound_view)) = None \<and>
   regions (snd (destroy ret0 bound_view)) = [Region ''r''] \<and>
   RegionRemoved (Region ''r'') \<notin> set (trace (snd (destroy ret0 bound_view))) \<and>
   RegionDestroyed (Region ''r'') \<notin> set (trace (snd (destroy ret0 bound_view))) \<and>
   StoppedListening \<notin> set (trace (snd (destroy ret0 bound_view)))"
  by (simp add: bound_view_def View_def bind_def destroy_def get_el_def render_def
      prepareListeners_def template_render_def log_def attachModel_def cell_def listenTo_def)

text \<open>
  C9. Once an element is cached, \<open>destroy\<close> returns, and the accessor still returns that
  element afterwards, without rendering.
\<close>

theorem el_after_destroy:
  assumes "u_el s = Some e"
  shows "fst (destroy ret s) = Inr () \<and>
         get_el ret (snd (destroy ret s)) = (Inr e, snd (destroy ret s))"
proof (cases "template s = None")
  case True
  with assms show ?thesis
    by (simp add: destroy_no_template get_el_def stopListening_def)
next
  case False
  with assms show ?thesis
    by (simp add: destroy_rendered get_el_def stopListening_def log_def)
qed

theorem el_after_destroy_witness:
  "u_el (snd (render ret0 plain_view)) = Some 0 \<and>
   fst (destroy ret0 (snd (render ret0 plain_view))) = Inr () \<and>
   fst (get_el ret0 (snd (destroy ret0 (snd (render ret0 plain_view))))) = Inr 0"
proof -
  have u: "u_el (snd (render ret0 plain_view)) = Some 0"
    by (simp add: plain_view_def View_def render_def prepareListeners_def template_render_def
        log_def)
  from el_after_destroy [OF u, of ret0] u show ?thesis by simp
qed

section \<open>What every operation preserves\<close>

lemma keeps_refl [simp]: "keeps s s"
  by (simp add: keeps_def)

lemma keeps_trans: "keeps a b \<Longrightarrow> keeps b c \<Longrightarrow> keeps a c"
  unfolding keeps_def by simp

lemma frame_keeps: "frame s s' \<Longrightarrow> keeps s s'"
  unfolding frame_def keeps_def by simp

lemma keeps_bind: "keeps s (snd (bind p cb s))"
  by (simp add: keeps_def bind_def cell_def nth_append)

lemma keeps_prepareListeners: "keeps s (prepareListeners s)"
  by (simp add: keeps_def prepareListeners_def cell_def split: option.splits)

lemma keeps_render: "keeps s (snd (render ret s))"
proof (cases "template s")
  case None
  then show ?thesis by (simp add: render_no_template)
next
  case (Some t0)
  let ?t = "prepareElementListeners t0"
  let ?s2 = "s\<lparr>template := Some ?t, u_template := Some ?t\<rparr>"
  obtain r s3 where r: "renderElement ret ?t ?s2 = (r, s3)"
    by (cases "renderElement ret ?t ?s2")
  have a: "keeps s ?s2"
    using Some by (simp add: keeps_def cell_def)
  have "frame ?s2 s3"
    using frame_renderElement [of ?s2 ret ?t] r by simp
  then have b: "keeps ?s2 s3" and t3: "template s3 \<noteq> None"
    by (simp_all add: frame_keeps, simp add: frame_def)
  from t3 have c: "keeps s3 (s3\<lparr>u_el := Some el\<rparr>)" for el
    by (auto simp: keeps_def cell_def)
  from r Some have "snd (render ret s) = s3 \<or> (\<exists>el. snd (render ret s) = s3\<lparr>u_el := Some el\<rparr>)"
    by (cases r) (auto simp: render_template)
  with keeps_trans [OF a b] c show ?thesis
    by (auto intro: keeps_trans)
qed

lemma keeps_get_el: "keeps s (snd (get_el ret s))"
  by (cases "u_el s") (simp_all add: get_el_def keeps_render)

lemma keeps_tail:
  "keeps s (stopListening (destroy_regions rs s))"
  by (simp add: keeps_def stopListening_def cell_def)

lemma keeps_destroy: "keeps s (snd (destroy ret s))"
proof -
  let ?s1 = "s\<lparr>model := None\<rparr>"
  have a: "keeps s ?s1"
    by (simp add: keeps_def cell_def)
  show ?thesis
  proof (cases "template s = None")
    case True
    with keeps_trans [OF a keeps_tail [of ?s1 "regions s"]] show ?thesis
      by (simp add: destroy_no_template)
  next
    case False
    show ?thesis
    proof (cases "u_el s")
      case (Some e)
      have "keeps ?s1 (log (Removed e) ?s1)"
        by (simp add: frame_keeps)
      from keeps_trans [OF keeps_trans [OF a this] keeps_tail [of _ "regions s"]] Some False
      show ?thesis
        by (simp add: destroy_rendered)
    next
      case None
      obtain r s2 where r: "render ret ?s1 = (r, s2)"
        by (cases "render ret ?s1")
      have b: "keeps s s2"
        using keeps_trans [OF a keeps_render [of ?s1 ret]] r by simp
      show ?thesis
      proof (cases r)
        case (Inl e)
        with r b None False show ?thesis by (simp add: destroy_unrendered)
      next
        case (Inr el)
        have "keeps s2 (log (Removed el) s2)"
          by (simp add: frame_keeps)
        from keeps_trans [OF keeps_trans [OF b this] keeps_tail [of _ "regions s2"]] Inr r None False
        show ?thesis
          by (simp add: destroy_unrendered)
      qed
    qed
  qed
qed

lemma keeps_step: "keeps s (step ret matches x s)"
proof (cases x)
  case (AddRegion r)
  then show ?thesis by (simp add: keeps_def cell_def)
next
  case (Mutate property val)
  then show ?thesis by (simp add: keeps_def cell_def split: option.splits)
qed (simp_all add: keeps_bind keeps_prepareListeners keeps_render keeps_get_el keeps_destroy
      frame_keeps notify_change_def dispatch_def)

lemma keeps_exec: "keeps s (exec ret matches xs s)"
proof (induction xs arbitrary: s)
  case Nil
  show ?case by simp
next
  case (Cons x xs)
  from keeps_trans [OF keeps_step Cons.IH] show ?case by simp
qed

section \<open>The claims about rendering\<close>

text \<open>
  C3. \<open>render\<close> on a View without a template throws the error \<open>ui-view-notemplate\<close>,
  which carries the View, and changes nothing. A View constructed without a template has
  none after any sequence of operations, and has no cached element: there \<open>render\<close> and
  the accessor \<open>el\<close> both throw that error, carrying the View, and change nothing.
\<close>

theorem render_without_template:
  "(\<forall>s. template s = None \<longrightarrow>
      render ret s =
        (Inl (CKEditorError ''ui-view-notemplate: This View implements no template to render.''
           (self s)), s)) \<and>
   render ret (exec ret matches ops (View i None attrs)) =
     (Inl (CKEditorError ''ui-view-notemplate: This View implements no template to render.'' i),
      exec ret matches ops (View i None attrs)) \<and>
   get_el ret (exec ret matches ops (View i None attrs)) =
     (Inl (CKEditorError ''ui-view-notemplate: This View implements no template to render.'' i),
      exec ret matches ops (View i None attrs))"
proof -
  let ?s = "exec ret matches ops (View i None attrs)"
  have "keeps (View i None attrs) ?s"
    by (rule keeps_exec)
  then have "self ?s = i" and "template ?s = None" and "u_el ?s = None"
    by (simp_all add: keeps_def View_def)
  then show ?thesis
    by (simp add: get_el_def render_no_template)
qed

theorem render_without_template_witness:
  "template bare_view = None \<and>
   render ret0 bare_view =
     (Inl (CKEditorError ''ui-view-notemplate: This View implements no template to render.'' 7),
      bare_view) \<and>
   get_el ret0 (exec ret0 matches0 [Bind ''x'' None, Destroy, Render] bare_view) =
     (Inl (CKEditorError ''ui-view-notemplate: This View implements no template to render.'' 7),
      exec ret0 matches0 [Bind ''x'' None, Destroy, Render] bare_view)"
proof -
  have t: "template bare_view = None" and s: "self bare_view = 7"
    and v: "bare_view = View 7 None [(''x'', Str ''a'')]"
    by (simp_all add: bare_view_def View_def)
  note main = render_without_template
    [of ret0 matches0 "[Bind ''x'' None, Destroy, Render]" 7 "[(''x'', Str ''a'')]"]
  from main t s have "render ret0 bare_view =
     (Inl (CKEditorError ''ui-view-notemplate: This View implements no template to render.'' 7),
      bare_view)"
    by simp
  moreover from main v have "get_el ret0 (exec ret0 matches0 [Bind ''x'' None, Destroy, Render] bare_view) =
     (Inl (CKEditorError ''ui-view-notemplate: This View implements no template to render.'' 7),
      exec ret0 matches0 [Bind ''x'' None, Destroy, Render] bare_view)"
    by simp
  ultimately show ?thesis
    using t by simp
qed

subsection \<open>The accessor and render\<close>

lemma render_Inr_template:
  assumes "render ret s = (Inr el, s')" and "template s = Some t0"
  shows "template s' = Some (prepareElementListeners t0)"
proof -
  let ?t = "prepareElementListeners t0"
  let ?s2 = "s\<lparr>template := Some ?t, u_template := Some ?t\<rparr>"
  have "frame ?s2 (snd (renderElement ret ?t ?s2))"
    by (rule frame_renderElement)
  then have "template (snd (renderElement ret ?t ?s2)) = Some ?t"
    by (simp add: frame_def)
  with assms show ?thesis
    by (auto simp: render_template split: prod.splits sum.splits)
qed

lemma click_view_render:
  "render ret0 click_view =
     (Inr 0, click_view\<lparr>u_el := Some 0,
        u_template := Some (TDef ''p'' None [] [(''click@span'', DOMListenerAttacher (Callback 3))] []),
        template := Some (TDef ''p'' None [] [(''click@span'', DOMListenerAttacher (Callback 3))] []),
        listeners := [(ElemObj 0, Some ''click'', DOMListener (Callback 3) (Some ''span''))],
        next_el := 1,
        trace := [Created 0 ''p'',
                  Subscribed (ElemObj 0) (Some ''click'') (DOMListener (Callback 3) (Some ''span''))]\<rparr>)"
  by (simp add: click_view_def View_def render_def prepareListeners_def template_render_def
      log_def split_key_def attachDOMListener_def listenTo_def getDOMListenerAttacher_def)

lemma click_view_render_twice:
  "render ret0 (snd (render ret0 click_view)) =
     (Inr 1, click_view\<lparr>u_el := Some 1,
        u_template := Some (TDef ''p'' None []
           [(''click@span'', DOMListenerAttacher (DOMListenerAttacher (Callback 3)))] []),
        template := Some (TDef ''p'' None []
           [(''click@span'', DOMListenerAttacher (DOMListenerAttacher (Callback 3)))] []),
        listeners := [(ElemObj 0, Some ''click'', DOMListener (Callback 3) (Some ''span'')),
                      (ElemObj 1, Some ''click'',
                       DOMListener (DOMListenerAttacher (Callback 3)) (Some ''span''))],
        next_el := 2,
        trace := [Created 0 ''p'',
                  Subscribed (ElemObj 0) (Some ''click'') (DOMListener (Callback 3) (Some ''span'')),
                  Created 1 ''p'',
                  Subscribed (ElemObj 1) (Some ''click'')
                    (DOMListener (DOMListenerAttacher (Callback 3)) (Some ''span''))]\<rparr>)"
  by (simp add: click_view_render)
     (simp add: click_view_def View_def render_def prepareListeners_def template_render_def
      log_def split_key_def attachDOMListener_def listenTo_def getDOMListenerAttacher_def)

section \<open>The claims about bindings\<close>

lemma onModelChange_cell:
  assumes "cell s c = Some cb"
  shows "onModelChange ret c el upd v s =
           (Inr (), s\<lparr>trace := trace s @ handler_calls ret cb upd el v\<rparr>)"
  using assms by (simp add: onModelChange_def handler_calls_def log_def Let_def)

lemma run_all_append:
  "run_all ret matches (hs @ [h]) x s =
     (case run_all ret matches hs x s of
        (Inl e, s1) \<Rightarrow> (Inl e, s1)
      | (Inr u, s1) \<Rightarrow> run_handler ret matches h x s1)"
proof (induction hs arbitrary: s)
  case Nil
  show ?case
    by (cases "run_handler ret matches h x s") (auto split: sum.splits)
next
  case (Cons a hs)
  show ?case
    by (cases "run_handler ret matches a x s") (auto simp: Cons.IH split: sum.splits)
qed

lemma subscribed_listenTo:
  "subscribed em n (listenTo em' n' h s) =
     subscribed em n s @ (if em' = em \<and> n' = Some n then [h] else [])"
  by (simp add: subscribed_def listenTo_def)

lemma subscribed_trace [simp]: "subscribed em n (s\<lparr>trace := t\<rparr>) = subscribed em n s"
  by (simp add: subscribed_def)

lemma subscribed_cells [simp]: "subscribed em n (s\<lparr>cells := t\<rparr>) = subscribed em n s"
  by (simp add: subscribed_def)

lemma cell_fill:
  assumes "c < length (cells s)"
  shows "cell (s\<lparr>cells := (cells s)[c := (case cell s c of Some f \<Rightarrow> Some f | None \<Rightarrow> Some upd)]\<rparr>) c =
           Some (case cell s c of Some f \<Rightarrow> f | None \<Rightarrow> upd)"
  using assms by (simp add: cell_def split: option.splits)

lemma attachModel_live:
  assumes "model s = Some m" and "c < length (cells s)"
  shows "attachModel ret c p el upd s =
           (Inr (),
            s\<lparr>cells := (cells s)[c := (case cell s c of Some f \<Rightarrow> Some f | None \<Rightarrow> Some upd)],
              listeners := listeners s @ [(ModelObj, Some (''change:'' @ p), OnModelChange c el upd)],
              trace := trace s @ Subscribed ModelObj (Some (''change:'' @ p)) (OnModelChange c el upd) #
                 handler_calls ret (case cell s c of Some f \<Rightarrow> f | None \<Rightarrow> upd) upd el (prop_of m p)\<rparr>)"
proof -
  let ?s1 = "s\<lparr>cells := (cells s)[c := (case cell s c of Some f \<Rightarrow> Some f | None \<Rightarrow> Some upd)]\<rparr>"
  let ?s2 = "listenTo ModelObj (Some (''change:'' @ p)) (OnModelChange c el upd) ?s1"
  have "cell ?s2 c = Some (case cell s c of Some f \<Rightarrow> f | None \<Rightarrow> upd)"
    using assms(2) by (simp add: listenTo_def cell_def split: option.splits)
  from onModelChange_cell [OF this, of ret el upd "prop_of m p"] assms(1)
  show ?thesis
    by (simp add: attachModel_def Let_def listenTo_def)
qed

lemma notify_after_attach:
  assumes "model s = Some m" and "c < length (cells s)"
    and "attachModel ret c p el upd s = (Inr (), s1)"
    and "notify_change ret matches p v s1 = (Inr (), s2)"
  shows "\<exists>mid. trace s2 =
           trace s1 @ mid @
             handler_calls ret (case cell s c of Some f \<Rightarrow> f | None \<Rightarrow> upd) upd el v"
proof -
  let ?cb = "case cell s c of Some f \<Rightarrow> f | None \<Rightarrow> upd"
  let ?h = "OnModelChange c el upd"
  let ?n = "''change:'' @ p"
  from attachModel_live [OF assms(1,2), of ret p el upd] assms(3)
  have s1: "s1 = s\<lparr>cells := (cells s)[c := (case cell s c of Some f \<Rightarrow> Some f | None \<Rightarrow> Some upd)],
              listeners := listeners s @ [(ModelObj, Some ?n, ?h)],
              trace := trace s @ Subscribed ModelObj (Some ?n) ?h # handler_calls ret ?cb upd el (prop_of m p)\<rparr>"
    by simp
  have sub: "subscribed ModelObj ?n s1 = subscribed ModelObj ?n s @ [?h]"
    by (simp add: s1 subscribed_def)
  have cell1: "cell s1 c = Some ?cb"
    using assms(2) by (simp add: s1 cell_def split: option.splits)
  obtain r s3 where old: "run_all ret matches (subscribed ModelObj ?n s) v s1 = (r, s3)"
    by (cases "run_all ret matches (subscribed ModelObj ?n s) v s1")
  from assms(4) have "run_all ret matches (subscribed ModelObj ?n s @ [?h]) v s1 = (Inr (), s2)"
    by (simp only: notify_change_def emit_def sub)
  with old have r: "r = Inr ()" and last: "onModelChange ret c el upd v s3 = (Inr (), s2)"
    by (auto simp: run_all_append split: sum.splits)
  have fr: "frame s1 s3"
    using frame_run_all [of s1 ret matches "subscribed ModelObj ?n s" v] old by simp
  with cell1 have "cell s3 c = Some ?cb"
    by (simp add: frame_def)
  from onModelChange_cell [OF this, of ret el upd v] last
  have s2: "s2 = s3\<lparr>trace := trace s3 @ handler_calls ret ?cb upd el v\<rparr>"
    by simp
  from fr obtain mid where "trace s3 = trace s1 @ mid"
    by (auto simp: frame_def prefix_def)
  with s2 show ?thesis by simp
qed

text \<open>
  C4. On a View whose model is there, calling the attachment function of a binding with an
  element and a DOM updater subscribes \<open>onModelChange\<close> to \<open>change:p\<close> of the model and
  then runs it once with the current value of the property; it returns. A change
  notification for \<open>p\<close> that comes afterwards only appends to the log, and when it returns
  it ends with the calls of this handler for the new value: the calls for the current value
  stand before everything a later notification does.
\<close>

theorem attach_subscribes_then_runs_once:
  assumes "model s = Some m" and "c < length (cells s)"
  shows "\<exists>s1. attachModel ret c p el upd s = (Inr (), s1) \<and>
           (Inr (), s1) =
             onModelChange ret c el upd (prop_of m p)
               (listenTo ModelObj (Some (''change:'' @ p)) (OnModelChange c el upd)
                  (s\<lparr>cells := (cells s)[c := (case cell s c of Some f \<Rightarrow> Some f | None \<Rightarrow> Some upd)]\<rparr>)) \<and>
           subscribed ModelObj (''change:'' @ p) s1 =
             subscribed ModelObj (''change:'' @ p) s @ [OnModelChange c el upd] \<and>
           trace s1 =
             trace s @ Subscribed ModelObj (Some (''change:'' @ p)) (OnModelChange c el upd) #
               handler_calls ret (case cell s c of Some f \<Rightarrow> f | None \<Rightarrow> upd) upd el (prop_of m p) \<and>
           (\<forall>v r s2. notify_change ret matches p v s1 = (r, s2) \<longrightarrow> prefix (trace s1) (trace s2)) \<and>
           (\<forall>v s2. notify_change ret matches p v s1 = (Inr (), s2) \<longrightarrow>
              (\<exists>mid. trace s2 =
                 trace s1 @ mid @
                   handler_calls ret (case cell s c of Some f \<Rightarrow> f | None \<Rightarrow> upd) upd el v))"
proof -
  let ?cb = "case cell s c of Some f \<Rightarrow> f | None \<Rightarrow> upd"
  let ?h = "OnModelChange c el upd"
  let ?n = "''change:'' @ p"
  let ?s0 = "s\<lparr>cells := (cells s)[c := (case cell s c of Some f \<Rightarrow> Some f | None \<Rightarrow> Some upd)]\<rparr>"
  let ?s1 = "s\<lparr>cells := (cells s)[c := (case cell s c of Some f \<Rightarrow> Some f | None \<Rightarrow> Some upd)],
              listeners := listeners s @ [(ModelObj, Some ?n, ?h)],
              trace := trace s @ Subscribed ModelObj (Some ?n) ?h # handler_calls ret ?cb upd el (prop_of m p)\<rparr>"
  have a: "attachModel ret c p el upd s = (Inr (), ?s1)"
    using assms by (rule attachModel_live)
  have b: "(Inr (), ?s1) = onModelChange ret c el upd (prop_of m p) (listenTo ModelObj (Some ?n) ?h ?s0)"
  proof -
    have "model (listenTo ModelObj (Some ?n) ?h ?s0) = Some m"
      using assms(1) by (simp add: listenTo_def)
    then have "attachModel ret c p el upd s =
        onModelChange ret c el upd (prop_of m p) (listenTo ModelObj (Some ?n) ?h ?s0)"
      using assms(1) by (simp add: attachModel_def Let_def)
    with a show ?thesis by simp
  qed
  have sub: "subscribed ModelObj ?n ?s1 = subscribed ModelObj ?n s @ [?h]"
    by (simp add: subscribed_def)
  have pre: "prefix (trace ?s1) (trace s2)" if "notify_change ret matches p v ?s1 = (r, s2)" for v r s2
  proof -
    have "frame ?s1 (snd (emit ret matches ModelObj ?n v ?s1))"
      by (rule frame_emit)
    with that show ?thesis
      by (simp add: notify_change_def frame_def)
  qed
  have post: "\<exists>mid. trace s2 = trace ?s1 @ mid @ handler_calls ret ?cb upd el v"
    if n: "notify_change ret matches p v ?s1 = (Inr (), s2)" for v s2
    using assms a n by (rule notify_after_attach)
  from a b sub pre post show ?thesis
    by (intro exI [of _ ?s1] conjI allI impI) simp_all
qed


text \<open>
  C5. \<open>bind\<close> with a callback returns an attachment function whose cell holds the
  callback, and no operation on the View changes that. So whenever the handler of such a
  binding, attached to an element with a DOM updater, runs with a value, it calls the
  callback with the element and the value, and then calls the DOM updater with the element
  and what the callback returned exactly when that is not \<open>undefined\<close>; it returns. A
  change notification that comes after the attachment and returns ends with these calls.
\<close>

theorem handler_calls_callback_then_updater:
  assumes "bind p (Some cb) s0 = (a, s1)"
  shows "a = Bound (length (cells s0)) p \<and>
         (\<forall>ops el upd v.
            run_handler ret matches (OnModelChange (length (cells s0)) el upd) v
                (exec ret matches ops s1) =
              (Inr (),
               (exec ret matches ops s1)\<lparr>trace := trace (exec ret matches ops s1) @
                  Called cb el v #
                    (if ret cb el v = Undefined then []
                     else [Called upd el (ret cb el v)])\<rparr>)) \<and>
         (\<forall>ops el upd v m s2 s3.
            model (exec ret matches ops s1) = Some m \<and>
            attachModel ret (length (cells s0)) p el upd (exec ret matches ops s1) = (Inr (), s2) \<and>
            notify_change ret matches p v s2 = (Inr (), s3) \<longrightarrow>
            (\<exists>mid. trace s3 =
               trace s2 @ mid @
                 Called cb el v #
                   (if ret cb el v = Undefined then []
                    else [Called upd el (ret cb el v)])))"
proof -
  let ?c = "length (cells s0)"
  from assms have a: "a = Bound ?c p" and s1: "s1 = s0\<lparr>cells := cells s0 @ [Some cb]\<rparr>"
    by (simp_all add: bind_def)
  have c1: "cell s1 ?c = Some cb"
    by (simp add: s1 cell_def)
  have c2: "cell (exec ret matches ops s1) ?c = Some cb" for ops
    using keeps_exec [of s1 ret matches ops] c1 by (simp add: keeps_def)
  have h: "run_handler ret matches (OnModelChange ?c el upd) v (exec ret matches ops s1) =
      (Inr (), (exec ret matches ops s1)\<lparr>trace := trace (exec ret matches ops s1) @
          Called cb el v # (if ret cb el v = Undefined then [] else [Called upd el (ret cb el v)])\<rparr>)"
    for ops el upd v
    using onModelChange_cell [OF c2 [of ops], of ret el upd v]
    by (simp add: handler_calls_def)
  have n: "\<exists>mid. trace s3 = trace s2 @ mid @
        Called cb el v # (if ret cb el v = Undefined then [] else [Called upd el (ret cb el v)])"
    if "model (exec ret matches ops s1) = Some m \<and>
        attachModel ret ?c p el upd (exec ret matches ops s1) = (Inr (), s2) \<and>
        notify_change ret matches p v s2 = (Inr (), s3)"
    for ops el upd v m s2 s3
  proof -
    let ?s = "exec ret matches ops s1"
    from that have m: "model ?s = Some m"
      and at: "attachModel ret ?c p el upd ?s = (Inr (), s2)"
      and nt: "notify_change ret matches p v s2 = (Inr (), s3)"
      by simp_all
    from c2 [of ops] have len: "?c < length (cells ?s)"
      by (simp add: cell_def split: if_splits)
    from notify_after_attach [OF m len at nt] c2 [of ops] show ?thesis
      by (simp add: handler_calls_def)
  qed
  from a h n show ?thesis
    by blast
qed

text \<open>
  C2, at a View with the property \<open>x\<close>: \<open>bind\<close> is called without a callback, and the
  attachment function it returns is called for element 1 with the updater of the attribute
  \<open>class\<close> and then for element 2 with the text updater. Line 85 has stored the first
  updater in the variable \<open>callback\<close> of \<open>bind\<close>, so the second call uses the updater of
  the attribute as the callback for element 2; the text updater is never called.
\<close>

theorem second_attachment_uses_first_updater:
  "fst (bind ''x'' None bare_view) = Bound 0 ''x'' \<and>
   attachModel ret0 0 ''x'' 2 TextUpdater
     (snd (attachModel ret0 0 ''x'' 1 (AttrUpdater ''class'') (snd (bind ''x'' None bare_view)))) =
   (Inr (),
    bare_view\<lparr>cells := [Some (AttrUpdater ''class'')],
      listeners := [(ModelObj, Some ''change:x'', OnModelChange 0 1 (AttrUpdater ''class'')),
                    (ModelObj, Some ''change:x'', OnModelChange 0 2 TextUpdater)],
      trace := [Subscribed ModelObj (Some ''change:x'') (OnModelChange 0 1 (AttrUpdater ''class'')),
                Called (AttrUpdater ''class'') 1 (Str ''a''),
                Subscribed ModelObj (Some ''change:x'') (OnModelChange 0 2 TextUpdater),
                Called (AttrUpdater ''class'') 2 (Str ''a'')]\<rparr>)"
  by (simp add: bare_view_def View_def bind_def attachModel_def cell_def listenTo_def
      onModelChange_def log_def prop_of_def ret0_def)

text \<open>
  The same in general: once the attachment function of a \<open>bind\<close> without a callback has
  been called with a DOM updater, every later call uses that first updater as the callback.
\<close>

lemma attach_reuses_first_updater:
  assumes "model s = Some m" and "c < length (cells s)" and "cell s c = None"
    and "attachModel ret c p el1 upd1 s = (r1, s1)"
    and "attachModel ret c p el2 upd2 s1 = (r2, s2)"
  shows "r1 = Inr () \<and> r2 = Inr () \<and> cell s2 c = Some upd1 \<and>
         trace s2 =
           trace s1 @ Subscribed ModelObj (Some (''change:'' @ p)) (OnModelChange c el2 upd2) #
             handler_calls ret upd1 upd2 el2 (prop_of m p)"
proof -
  from attachModel_live [OF assms(1,2), of ret p el1 upd1] assms(3,4)
  have r1: "r1 = Inr ()" and s1: "s1 = s\<lparr>cells := (cells s)[c := Some upd1],
      listeners := listeners s @ [(ModelObj, Some (''change:'' @ p), OnModelChange c el1 upd1)],
      trace := trace s @ Subscribed ModelObj (Some (''change:'' @ p)) (OnModelChange c el1 upd1) #
         handler_calls ret upd1 upd1 el1 (prop_of m p)\<rparr>"
    by simp_all
  have m1: "model s1 = Some m" and l1: "c < length (cells s1)" and c1: "cell s1 c = Some upd1"
    using assms(1,2) by (simp_all add: s1 cell_def)
  from attachModel_live [OF m1 l1, of ret p el2 upd2] assms(5) c1
  have "r2 = Inr ()" and "s2 = s1\<lparr>cells := (cells s1)[c := Some upd1],
      listeners := listeners s1 @ [(ModelObj, Some (''change:'' @ p), OnModelChange c el2 upd2)],
      trace := trace s1 @ Subscribed ModelObj (Some (''change:'' @ p)) (OnModelChange c el2 upd2) #
         handler_calls ret upd1 upd2 el2 (prop_of m p)\<rparr>"
    by simp_all
  with r1 l1 show ?thesis
    by (simp add: cell_def)
qed

section \<open>The claims about listeners\<close>

lemma dispatch_after_attach:
  "dispatch ret matches el n e (attachDOMListener v (ElemObj el) (Some n) sel s) =
     (case run_all ret matches (subscribed (ElemObj el) n s) (EvtObj e)
             (attachDOMListener v (ElemObj el) (Some n) sel s) of
        (Inl er, s2) \<Rightarrow> (Inl er, s2)
      | (Inr u, s2) \<Rightarrow> domListener matches v sel (EvtObj e) s2)"
  by (simp add: dispatch_def emit_def attachDOMListener_def subscribed_listenTo run_all_append
      split: prod.splits sum.splits)

text \<open>
  The action of a listener always leaves an entry in the log.
\<close>

lemma listener_action_logs:
  "length (trace (listener_action v x s)) = Suc (length (trace s))"
  by (cases v) (simp_all add: log_def fire_def attachDOMListener_def listenTo_def)

text \<open>
  C6. The attacher of a listener declaration \<open>v\<close> is called with an element, the name of a
  native event and a selector; a native event of that name is then dispatched on the
  element, and the listeners subscribed before have run and returned. Line 202 takes a
  selector as supplied when it is a string that is not empty. With such a selector the
  action of \<open>v\<close> runs exactly when the target of the event matches the selector: the
  dispatch returns with the action done when \<open>matches\<close> says yes, returns with nothing
  done when it says no, and throws the error of \<open>matches\<close>, with nothing done, when
  \<open>matches\<close> throws. With no selector, or with the empty string, the action runs on every
  dispatch, whatever the target. The action always shows in the log; the action of a
  function is its call with the native event, the action of an event name is firing that
  event on the View with the native event.
\<close>

theorem delegated_listener:
  assumes "s1 = attachDOMListener v (ElemObj el) (Some n) sel s"
    and "run_all ret matches (subscribed (ElemObj el) n s) (EvtObj e) s1 = (Inr (), s2)"
  shows "(\<forall>q. sel = Some q \<and> q \<noteq> [] \<longrightarrow>
            dispatch ret matches el n e s1 =
              (case matches (target e) q of
                 Inl err \<Rightarrow> (Inl err, s2)
               | Inr b \<Rightarrow> (Inr (), if b then listener_action v (EvtObj e) s2 else s2))) \<and>
         (sel = None \<or> sel = Some [] \<longrightarrow>
            dispatch ret matches el n e s1 = (Inr (), listener_action v (EvtObj e) s2)) \<and>
         length (trace (listener_action v (EvtObj e) s2)) = Suc (length (trace s2)) \<and>
         (\<forall>i. v = Callback i \<longrightarrow>
            listener_action v (EvtObj e) s2 = s2\<lparr>trace := trace s2 @ [Invoked i [EvtObj e]]\<rparr>) \<and>
         (\<forall>a. v = EvtName a \<longrightarrow>
            listener_action v (EvtObj e) s2 = s2\<lparr>trace := trace s2 @ [Fired (EvtName a) (EvtObj e)]\<rparr>)"
proof -
  have d: "dispatch ret matches el n e s1 = domListener matches v sel (EvtObj e) s2"
    using assms by (simp add: dispatch_after_attach)
  have a: "\<forall>q. sel = Some q \<and> q \<noteq> [] \<longrightarrow>
            dispatch ret matches el n e s1 =
              (case matches (target e) q of
                 Inl err \<Rightarrow> (Inl err, s2)
               | Inr b \<Rightarrow> (Inr (), if b then listener_action v (EvtObj e) s2 else s2))"
    by (auto simp: d domListener_def split: sum.splits)
  have b: "sel = None \<or> sel = Some [] \<longrightarrow>
            dispatch ret matches el n e s1 = (Inr (), listener_action v (EvtObj e) s2)"
    by (auto simp: d domListener_def)
  have c: "length (trace (listener_action v (EvtObj e) s2)) = Suc (length (trace s2))"
    by (rule listener_action_logs)
  have f: "\<forall>i. v = Callback i \<longrightarrow>
            listener_action v (EvtObj e) s2 = s2\<lparr>trace := trace s2 @ [Invoked i [EvtObj e]]\<rparr>"
    by (simp add: log_def)
  have g: "\<forall>a. v = EvtName a \<longrightarrow>
            listener_action v (EvtObj e) s2 = s2\<lparr>trace := trace s2 @ [Fired (EvtName a) (EvtObj e)]\<rparr>"
    by (simp add: log_def fire_def)
  from a b c f g show ?thesis
    by blast
qed

lemma click_view_rendered:
  "snd (render ret0 click_view) =
     attachDOMListener (Callback 3) (ElemObj 0) (Some ''click'') (Some ''span'')
       (click_view\<lparr>u_el := Some 0,
          u_template := Some (TDef ''p'' None [] [(''click@span'', DOMListenerAttacher (Callback 3))] []),
          template := Some (TDef ''p'' None [] [(''click@span'', DOMListenerAttacher (Callback 3))] []),
          next_el := 1, trace := [Created 0 ''p'']\<rparr>)"
  by (simp add: click_view_render) (simp add: attachDOMListener_def listenTo_def click_view_def View_def)

text \<open>
  On the View that declares \<open>'click@span': callback\<close>, once rendered: a click whose
  target matches calls the callback, a click whose target does not match does nothing, and
  a click whose target is no element throws the TypeError of \<open>matches\<close> with nothing done.
  With the empty string as the selector a click calls the callback though the target does
  not match.
\<close>

theorem delegated_listener_witness:
  "fst (dispatch ret0 matches0 0 ''click'' (DomEvent 0 1) (snd (render ret0 click_view))) = Inr () \<and>
   trace (snd (dispatch ret0 matches0 0 ''click'' (DomEvent 0 1) (snd (render ret0 click_view)))) =
     trace (snd (render ret0 click_view)) @ [Invoked 3 [EvtObj (DomEvent 0 1)]] \<and>
   dispatch ret0 matches0 0 ''click'' (DomEvent 0 2) (snd (render ret0 click_view)) =
     (Inr (), snd (render ret0 click_view)) \<and>
   dispatch ret0 matches0 0 ''click'' (DomEvent 0 9) (snd (render ret0 click_view)) =
     (Inl TypeError, snd (render ret0 click_view)) \<and>
   matches0 2 [] = Inr False \<and>
   dispatch ret0 matches0 0 ''click'' (DomEvent 0 2)
       (attachDOMListener (Callback 4) (ElemObj 0) (Some ''click'') (Some []) plain_view) =
     (Inr (),
      (attachDOMListener (Callback 4) (ElemObj 0) (Some ''click'') (Some []) plain_view)\<lparr>trace :=
         trace (attachDOMListener (Callback 4) (ElemObj 0) (Some ''click'') (Some []) plain_view) @
           [Invoked 4 [EvtObj (DomEvent 0 2)]]\<rparr>)"
proof -
  let ?s = "click_view\<lparr>u_el := Some 0,
          u_template := Some (TDef ''p'' None [] [(''click@span'', DOMListenerAttacher (Callback 3))] []),
          template := Some (TDef ''p'' None [] [(''click@span'', DOMListenerAttacher (Callback 3))] []),
          next_el := 1, trace := [Created 0 ''p'']\<rparr>"
  let ?s1 = "snd (render ret0 click_view)"
  let ?p1 = "attachDOMListener (Callback 4) (ElemObj 0) (Some ''click'') (Some []) plain_view"
  have a: "?s1 = attachDOMListener (Callback 3) (ElemObj 0) (Some ''click'') (Some ''span'') ?s"
    by (rule click_view_rendered)
  have b: "run_all ret0 matches0 (subscribed (ElemObj 0) ''click'' ?s) (EvtObj e) ?s1 = (Inr (), ?s1)" for e
    by (simp add: subscribed_def click_view_def View_def)
  have c: "run_all ret0 matches0 (subscribed (ElemObj 0) ''click'' plain_view) (EvtObj e) ?p1 = (Inr (), ?p1)" for e
    by (simp add: subscribed_def plain_view_def View_def)
  note m1 = delegated_listener [OF a b, of "DomEvent 0 1"]
  note m2 = delegated_listener [OF a b, of "DomEvent 0 2"]
  note m9 = delegated_listener [OF a b, of "DomEvent 0 9"]
  note me = delegated_listener [OF refl c, of "DomEvent 0 2"]
  from m1 have d1: "dispatch ret0 matches0 0 ''click'' (DomEvent 0 1) ?s1 =
      (Inr (), ?s1\<lparr>trace := trace ?s1 @ [Invoked 3 [EvtObj (DomEvent 0 1)]]\<rparr>)"
    by (simp add: matches0_def)
  from m2 have d2: "dispatch ret0 matches0 0 ''click'' (DomEvent 0 2) ?s1 = (Inr (), ?s1)"
    by (simp add: matches0_def)
  from m9 have d9: "dispatch ret0 matches0 0 ''click'' (DomEvent 0 9) ?s1 = (Inl TypeError, ?s1)"
    by (simp add: matches0_def)
  from me have de: "dispatch ret0 matches0 0 ''click'' (DomEvent 0 2) ?p1 =
      (Inr (), ?p1\<lparr>trace := trace ?p1 @ [Invoked 4 [EvtObj (DomEvent 0 2)]]\<rparr>)"
    by simp
  have f: "matches0 2 [] = Inr False"
    by (simp add: matches0_def)
  have "fst (dispatch ret0 matches0 0 ''click'' (DomEvent 0 1) ?s1) = Inr ()"
    using d1 by simp
  moreover have "trace (snd (dispatch ret0 matches0 0 ''click'' (DomEvent 0 1) ?s1)) =
      trace ?s1 @ [Invoked 3 [EvtObj (DomEvent 0 1)]]"
    using d1 by simp
  ultimately show ?thesis
    using d2 d9 f de by blast
qed

text \<open>
  The empty string is no selector for line 202 (\<open>!selector\<close>): the action runs whatever
  the target is.
\<close>

lemma empty_selector_not_tested:
  "domListener matches v (Some []) x s = (Inr (), listener_action v x s)"
  by (simp add: domListener_def)

subsection \<open>Preparing the listeners twice\<close>

lemma prepare_on_cases:
  "prepare_on v =
     (case v of ArrayOf vs \<Rightarrow> ArrayOf (map DOMListenerAttacher vs) | _ \<Rightarrow> DOMListenerAttacher v)"
  by (cases v) (simp_all add: getDOMListenerAttacher_def)

lemma prepare_on_twice:
  "prepare_on (prepare_on v) =
     (case v of
        ArrayOf vs \<Rightarrow> ArrayOf (map (\<lambda>x. DOMListenerAttacher (DOMListenerAttacher x)) vs)
      | _ \<Rightarrow> DOMListenerAttacher (DOMListenerAttacher v))"
  by (cases v) (simp_all add: getDOMListenerAttacher_def)

lemma on_of_prepare:
  "on_of (prepareElementListeners d) = map (\<lambda>(k, v). (k, prepare_on v)) (on_of d)"
  by (cases d) simp

lemma children_of_prepare:
  "children_of (prepareElementListeners d) = map prepareElementListeners (children_of d)"
  by (cases d) simp

lemma call_attachers_listeners:
  assumes "call_attachers vs el n sel s = (Inr (), s')" and "DOMListenerAttacher w \<in> set vs"
  shows "(ElemObj el, Some n, DOMListener w sel) \<in> set (listeners s')"
  using assms
proof (induction vs arbitrary: s)
  case Nil
  then show ?case by simp
next
  case (Cons v vs)
  obtain r s1 where h: "call_attacher v el n sel s = (r, s1)"
    by (cases "call_attacher v el n sel s")
  with Cons.prems(1) have r: "r = Inr ()" and rest: "call_attachers vs el n sel s1 = (Inr (), s')"
    by (auto split: sum.splits)
  show ?case
  proof (cases "v = DOMListenerAttacher w")
    case True
    with h have "(ElemObj el, Some n, DOMListener w sel) \<in> set (listeners s1)"
      by (auto simp: attachDOMListener_def listenTo_def)
    moreover have "prefix (listeners s1) (listeners s')"
      using frame_call_attachers [of s1 vs el n sel] rest by (simp add: frame_def)
    ultimately show ?thesis
      by (auto simp: prefix_def)
  next
    case False
    with Cons.prems(2) have "DOMListenerAttacher w \<in> set vs" by simp
    from Cons.IH [OF rest this] show ?thesis .
  qed
qed

lemma render_on_listeners:
  assumes "render_on on el s = (Inr (), s')" and "(k, v) \<in> set on"
    and "DOMListenerAttacher w \<in> set (case v of ArrayOf vs \<Rightarrow> vs | _ \<Rightarrow> [v])"
  shows "(ElemObj el, Some (fst (split_key k)), DOMListener w (snd (split_key k))) \<in> set (listeners s')"
  using assms(1,2)
proof (induction on arbitrary: s)
  case Nil
  then show ?case by simp
next
  case (Cons kv on)
  obtain k' v' where kv: "kv = (k', v')" by (cases kv)
  let ?c = "call_attachers (case v' of ArrayOf vs \<Rightarrow> vs | _ \<Rightarrow> [v']) el (fst (split_key k')) (snd (split_key k')) s"
  obtain r s1 where h: "?c = (r, s1)" by (cases ?c)
  with Cons.prems(1) kv have r: "r = Inr ()" and rest: "render_on on el s1 = (Inr (), s')"
    by (auto split: sum.splits)
  show ?case
  proof (cases "(k, v) = (k', v')")
    case True
    with h r assms(3)
    have "(ElemObj el, Some (fst (split_key k)), DOMListener w (snd (split_key k))) \<in> set (listeners s1)"
      by (auto intro: call_attachers_listeners)
    moreover have "prefix (listeners s1) (listeners s')"
      using frame_render_on [of s1 on el] rest by (simp add: frame_def)
    ultimately show ?thesis
      by (auto simp: prefix_def)
  next
    case False
    with Cons.prems(2) kv have "(k, v) \<in> set on" by auto
    from Cons.IH [OF rest this] show ?thesis .
  qed
qed

lemma renderElement_listeners:
  assumes "renderElement ret t s = (Inr el, s')" and "(k, v) \<in> set (on_of t)"
    and "DOMListenerAttacher w \<in> set (case v of ArrayOf vs \<Rightarrow> vs | _ \<Rightarrow> [v])"
  shows "(ElemObj el, Some (fst (split_key k)), DOMListener w (snd (split_key k))) \<in> set (listeners s')"
proof -
  obtain tg tx attrs on children where t: "t = TDef tg tx attrs on children"
    by (cases t)
  from assms(1) t obtain s2 s3 where el: "el = next_el s"
    and ron: "render_on on el s2 = (Inr (), s3)"
    and rch: "renderChildren ret children s3 = (Inr (), s')"
    by (auto simp: Let_def split: prod.splits sum.splits)
  from assms(2) t have "(k, v) \<in> set on" by simp
  from render_on_listeners [OF ron this assms(3)]
  have "(ElemObj el, Some (fst (split_key k)), DOMListener w (snd (split_key k))) \<in> set (listeners s3)" .
  moreover have "frame s3 (snd (renderChildren ret children s3))"
    by (rule frame_renderChildren_if) (rule frame_renderElement)
  with rch have "prefix (listeners s3) (listeners s')"
    by (simp add: frame_def)
  ultimately show ?thesis
    by (auto simp: prefix_def)
qed

lemma render_listeners:
  assumes "render ret s = (Inr el, s')" and "template s = Some t"
    and "(k, v) \<in> set (on_of (prepareElementListeners t))"
    and "DOMListenerAttacher w \<in> set (case v of ArrayOf vs \<Rightarrow> vs | _ \<Rightarrow> [v])"
  shows "(ElemObj el, Some (fst (split_key k)), DOMListener w (snd (split_key k))) \<in> set (listeners s')"
proof -
  let ?t = "prepareElementListeners t"
  let ?s2 = "s\<lparr>template := Some ?t, u_template := Some ?t\<rparr>"
  from assms(1,2) obtain s3 where r: "renderElement ret ?t ?s2 = (Inr el, s3)"
    and s': "s' = s3\<lparr>u_el := Some el\<rparr>"
    by (auto simp: render_template split: prod.splits sum.splits)
  from renderElement_listeners [OF r assms(3,4)] s' show ?thesis
    by simp
qed

text \<open>
  C10, as the claim states it, fails on an entry whose value is an array: the value is
  replaced by an array of attachers, one for each element, and not by an attacher that
  wraps the array.
\<close>

theorem prepare_array_counterexample:
  "on_of (prepareElementListeners
      (TDef ''p'' None [] [(''click'', ArrayOf [EvtName ''foo'', Callback 1])] [])) =
     [(''click'', ArrayOf [DOMListenerAttacher (EvtName ''foo''), DOMListenerAttacher (Callback 1)])] \<and>
   on_of (prepareElementListeners
      (TDef ''p'' None [] [(''click'', ArrayOf [EvtName ''foo'', Callback 1])] [])) \<noteq>
     [(''click'', DOMListenerAttacher (ArrayOf [EvtName ''foo'', Callback 1]))]"
  by (simp add: getDOMListenerAttacher_def)

text \<open>
  C10, as the code has it. \<open>prepareElementListeners\<close> replaces the value of every \<open>on\<close>
  entry, with no test for an earlier pass: a value that is no array by a new attacher that
  wraps it, every element of an array by a new attacher that wraps the element; the
  children are prepared the same way. A second pass therefore wraps the attachers of the
  first. After a second \<open>render\<close> the listener subscribed on the new element holds an
  attacher of the first pass in the place of the declaration, and when a native event
  passes its selector test, that attacher is called with the native event as its element:
  it subscribes a listener on the event object instead of running the declared action.
\<close>

theorem prepare_wraps_again:
  "on_of (prepareElementListeners d) =
     map (\<lambda>(k, v). (k, case v of ArrayOf vs \<Rightarrow> ArrayOf (map DOMListenerAttacher vs)
                          | _ \<Rightarrow> DOMListenerAttacher v)) (on_of d) \<and>
   children_of (prepareElementListeners d) = map prepareElementListeners (children_of d) \<and>
   on_of (prepareElementListeners (prepareElementListeners d)) =
     map (\<lambda>(k, v). (k, case v of
                          ArrayOf vs \<Rightarrow> ArrayOf (map (\<lambda>x. DOMListenerAttacher (DOMListenerAttacher x)) vs)
                        | _ \<Rightarrow> DOMListenerAttacher (DOMListenerAttacher v))) (on_of d) \<and>
   (\<forall>s e1 s1 e2 s2 k v x.
      template s = Some d \<and> render ret s = (Inr e1, s1) \<and> render ret s1 = (Inr e2, s2) \<and>
      (k, v) \<in> set (on_of d) \<and> x \<in> set (case v of ArrayOf vs \<Rightarrow> vs | _ \<Rightarrow> [v]) \<longrightarrow>
      (ElemObj e2, Some (fst (split_key k)),
       DOMListener (DOMListenerAttacher x) (snd (split_key k))) \<in> set (listeners s2)) \<and>
   (\<forall>x sel e s.
      no_selector sel \<or> matches (target e) (the sel) = Inr True \<longrightarrow>
      run_handler ret matches (DOMListener (DOMListenerAttacher x) sel) (EvtObj e) s =
        (Inr (), listenTo (EvtObj e) None (DOMListener x None) s))"
proof (intro conjI allI impI)
  show "on_of (prepareElementListeners d) =
     map (\<lambda>(k, v). (k, case v of ArrayOf vs \<Rightarrow> ArrayOf (map DOMListenerAttacher vs)
                          | _ \<Rightarrow> DOMListenerAttacher v)) (on_of d)"
    by (simp add: on_of_prepare prepare_on_cases)
  show "children_of (prepareElementListeners d) = map prepareElementListeners (children_of d)"
    by (rule children_of_prepare)
  show "on_of (prepareElementListeners (prepareElementListeners d)) =
     map (\<lambda>(k, v). (k, case v of
                          ArrayOf vs \<Rightarrow> ArrayOf (map (\<lambda>x. DOMListenerAttacher (DOMListenerAttacher x)) vs)
                        | _ \<Rightarrow> DOMListenerAttacher (DOMListenerAttacher v))) (on_of d)"
    by (simp add: on_of_prepare prepare_on_twice [symmetric] case_prod_unfold comp_def)
next
  fix s e1 s1 e2 s2 k v x
  assume a: "template s = Some d \<and> render ret s = (Inr e1, s1) \<and> render ret s1 = (Inr e2, s2) \<and>
      (k, v) \<in> set (on_of d) \<and> x \<in> set (case v of ArrayOf vs \<Rightarrow> vs | _ \<Rightarrow> [v])"
  then have t: "template s = Some d" and r1: "render ret s = (Inr e1, s1)"
    and r2: "render ret s1 = (Inr e2, s2)" and kv: "(k, v) \<in> set (on_of d)"
    and x: "x \<in> set (case v of ArrayOf vs \<Rightarrow> vs | _ \<Rightarrow> [v])"
    by simp_all
  have t1: "template s1 = Some (prepareElementListeners d)"
    using r1 t by (rule render_Inr_template)
  from kv have kv2: "(k, prepare_on (prepare_on v)) \<in>
      set (on_of (prepareElementListeners (prepareElementListeners d)))"
    by (force simp: on_of_prepare)
  from x have "DOMListenerAttacher (DOMListenerAttacher x) \<in>
      set (case prepare_on (prepare_on v) of ArrayOf vs \<Rightarrow> vs | _ \<Rightarrow> [prepare_on (prepare_on v)])"
    by (cases v) (auto simp: getDOMListenerAttacher_def)
  from render_listeners [OF r2 t1 kv2 this]
  show "(ElemObj e2, Some (fst (split_key k)),
       DOMListener (DOMListenerAttacher x) (snd (split_key k))) \<in> set (listeners s2)" .
next
  fix x sel e s
  assume "no_selector sel \<or> matches (target e) (the sel) = Inr True"
  then show "run_handler ret matches (DOMListener (DOMListenerAttacher x) sel) (EvtObj e) s =
        (Inr (), listenTo (EvtObj e) None (DOMListener x None) s)"
    by (auto simp: domListener_def attachDOMListener_def)
qed

text \<open>
  On the View that declares \<open>'click@span': callback\<close>: after two calls of \<open>render\<close> a
  click on the second element whose target matches does not call the callback; it
  subscribes a listener on the event.
\<close>

theorem prepare_wraps_again_witness:
  "template click_view = Some (TDef ''p'' None [] [(''click@span'', Callback 3)] []) \<and>
   fst (render ret0 click_view) = Inr 0 \<and>
   fst (render ret0 (snd (render ret0 click_view))) = Inr 1 \<and>
   (ElemObj 1, Some ''click'', DOMListener (DOMListenerAttacher (Callback 3)) (Some ''span''))
     \<in> set (listeners (snd (render ret0 (snd (render ret0 click_view))))) \<and>
   matches0 (target (DomEvent 0 1)) ''span'' = Inr True \<and>
   trace (snd (dispatch ret0 matches0 1 ''click'' (DomEvent 0 1)
                 (snd (render ret0 (snd (render ret0 click_view)))))) =
     trace (snd (render ret0 (snd (render ret0 click_view)))) @
       [Subscribed (EvtObj (DomEvent 0 1)) None (DOMListener (Callback 3) None)]"
proof -
  let ?d = "TDef ''p'' None [] [(''click@span'', Callback 3)] []"
  let ?s1 = "snd (render ret0 click_view)"
  let ?s2 = "snd (render ret0 ?s1)"
  have t: "template click_view = Some ?d"
    by (simp add: click_view_def View_def)
  have f1: "fst (render ret0 click_view) = Inr 0"
    by (simp add: click_view_render)
  have f2: "fst (render ret0 ?s1) = Inr 1"
    by (simp add: click_view_render_twice)
  have r1: "render ret0 click_view = (Inr 0, ?s1)"
    using f1 by (cases "render ret0 click_view") simp
  have r2: "render ret0 ?s1 = (Inr 1, ?s2)"
    using f2 by (cases "render ret0 ?s1") simp
  have m: "matches0 (target (DomEvent 0 1)) ''span'' = Inr True"
    by (simp add: matches0_def)
  note main = prepare_wraps_again [of ?d ret0 matches0]
  have kv: "(''click@span'', Callback 3) \<in> set (on_of ?d)"
    and x: "Callback 3 \<in> set (case Callback 3 of ArrayOf vs \<Rightarrow> vs | _ \<Rightarrow> [Callback 3])"
    by simp_all
  from main t r1 r2 kv x
  have "(ElemObj 1, Some (fst (split_key ''click@span'')),
       DOMListener (DOMListenerAttacher (Callback 3)) (snd (split_key ''click@span'')))
     \<in> set (listeners ?s2)"
    by blast
  then have l: "(ElemObj 1, Some ''click'', DOMListener (DOMListenerAttacher (Callback 3)) (Some ''span''))
     \<in> set (listeners ?s2)"
    by (simp add: split_key_def)
  from main m
  have h: "run_handler ret0 matches0 (DOMListener (DOMListenerAttacher (Callback 3)) (Some ''span''))
        (EvtObj (DomEvent 0 1)) ?s2 =
      (Inr (), listenTo (EvtObj (DomEvent 0 1)) None (DOMListener (Callback 3) None) ?s2)"
    by simp
  have sub: "subscribed (ElemObj 1) ''click'' ?s2 =
      [DOMListener (DOMListenerAttacher (Callback 3)) (Some ''span'')]"
    by (simp add: click_view_render_twice) (simp add: subscribed_def)
  have "dispatch ret0 matches0 1 ''click'' (DomEvent 0 1) ?s2 =
      (Inr (), listenTo (EvtObj (DomEvent 0 1)) None (DOMListener (Callback 3) None) ?s2)"
    unfolding dispatch_def emit_def sub using h by simp
  then have "trace (snd (dispatch ret0 matches0 1 ''click'' (DomEvent 0 1) ?s2)) =
      trace ?s2 @ [Subscribed (EvtObj (DomEvent 0 1)) None (DOMListener (Callback 3) None)]"
    by (simp add: listenTo_def)
  with t f1 f2 l m show ?thesis
    by blast
qed

subsection \<open>When rendering returns\<close>

lemma callable_prepare_on:
  "list_all is_function (case prepare_on v of ArrayOf vs \<Rightarrow> vs | _ \<Rightarrow> [prepare_on v])"
  by (cases v) (simp_all add: getDOMListenerAttacher_def list_all_iff)

lemma callable_prepare: "callable (prepareElementListeners d)"
proof (induction d)
  case (TDef tg tx attrs on children)
  have "list_all (\<lambda>(k, v). list_all is_function (case v of ArrayOf vs \<Rightarrow> vs | _ \<Rightarrow> [v]))
      (map (\<lambda>(k, v). (k, prepare_on v)) on)"
  proof (induction on)
    case Nil
    show ?case by simp
  next
    case (Cons kv on)
    obtain k v where "kv = (k, v)" by (cases kv)
    with Cons callable_prepare_on [of v] show ?case by simp
  qed
  moreover have "list_all callable (map prepareElementListeners children)"
    using TDef.IH by (simp add: list_all_iff)
  ultimately show ?case by simp
qed

lemma bound_ok_prepare: "bound_ok n (prepareElementListeners d) = bound_ok n d"
proof (induction d)
  case (TDef tg tx attrs on children)
  then show ?case by (simp add: list_all_iff)
qed

lemma attachModel_returns:
  assumes "model s \<noteq> None" and "c < length (cells s)"
  shows "fst (attachModel ret c p el upd s) = Inr ()"
proof -
  from assms(1) obtain m where "model s = Some m" by auto
  from attachModel_live [OF this assms(2), of ret p el upd] show ?thesis by simp
qed

lemma render_field_returns:
  assumes "model s \<noteq> None" and "field_ok (length (cells s)) f"
  shows "fst (render_field ret f el upd s) = Inr ()"
  using assms by (cases f) (simp_all add: attachModel_returns)

lemma frame_live:
  assumes "frame s s'" and "model s \<noteq> None"
  shows "model s' \<noteq> None" and "length (cells s') = length (cells s)"
  using assms by (simp_all add: frame_def)

lemma render_attributes_returns:
  assumes "model s \<noteq> None" and "list_all (\<lambda>(a, f). field_ok (length (cells s)) f) attrs"
  shows "fst (render_attributes ret attrs el s) = Inr ()"
  using assms
proof (induction attrs arbitrary: s)
  case Nil
  show ?case by simp
next
  case (Cons af attrs)
  obtain a f where af: "af = (a, f)" by (cases af)
  obtain r s1 where h: "render_field ret f el (AttrUpdater a) s = (r, s1)"
    by (cases "render_field ret f el (AttrUpdater a) s")
  from Cons.prems af have ok: "field_ok (length (cells s)) f"
    and rest: "list_all (\<lambda>(a, f). field_ok (length (cells s)) f) attrs"
    by simp_all
  from render_field_returns [OF Cons.prems(1) ok, of ret el "AttrUpdater a"] h
  have r: "r = Inr ()" by simp
  have "frame s s1"
    using frame_render_field [of s ret f el "AttrUpdater a"] h by simp
  from frame_live [OF this Cons.prems(1)] rest
  have "fst (render_attributes ret attrs el s1) = Inr ()"
    by (intro Cons.IH) simp_all
  with h r af show ?case by simp
qed

lemma call_attacher_returns:
  "is_function v \<Longrightarrow> fst (call_attacher v el n sel s) = Inr ()"
  by (cases v) simp_all

lemma call_attachers_returns:
  "list_all is_function vs \<Longrightarrow> fst (call_attachers vs el n sel s) = Inr ()"
proof (induction vs arbitrary: s)
  case Nil
  show ?case by simp
next
  case (Cons v vs)
  obtain r s1 where h: "call_attacher v el n sel s = (r, s1)"
    by (cases "call_attacher v el n sel s")
  from Cons.prems call_attacher_returns [of v el n sel s] h have "r = Inr ()" by simp
  with h Cons.IH [of s1] Cons.prems show ?case by simp
qed

lemma render_on_returns:
  "list_all (\<lambda>(k, v). list_all is_function (case v of ArrayOf vs \<Rightarrow> vs | _ \<Rightarrow> [v])) on \<Longrightarrow>
   fst (render_on on el s) = Inr ()"
proof (induction on arbitrary: s)
  case Nil
  show ?case by simp
next
  case (Cons kv on)
  obtain k v where kv: "kv = (k, v)" by (cases kv)
  let ?c = "call_attachers (case v of ArrayOf vs \<Rightarrow> vs | _ \<Rightarrow> [v]) el (fst (split_key k)) (snd (split_key k)) s"
  obtain r s1 where h: "?c = (r, s1)" by (cases ?c)
  from Cons.prems kv have "list_all is_function (case v of ArrayOf vs \<Rightarrow> vs | _ \<Rightarrow> [v])"
    by simp
  from call_attachers_returns [OF this, of el "fst (split_key k)" "snd (split_key k)" s] h
  have "r = Inr ()" by simp
  with h kv Cons.IH [of s1] Cons.prems show ?case by simp
qed

lemma renderChildren_returns_if:
  assumes "\<And>d s. d \<in> set ds \<Longrightarrow> model s \<noteq> None \<Longrightarrow> length (cells s) = n \<Longrightarrow>
             \<exists>el. fst (renderElement ret d s) = Inr el"
    and "model s \<noteq> None" and "length (cells s) = n"
  shows "fst (renderChildren ret ds s) = Inr ()"
  using assms
proof (induction ds arbitrary: s)
  case Nil
  show ?case by simp
next
  case (Cons d ds)
  obtain r s1 where h: "renderElement ret d s = (r, s1)"
    by (cases "renderElement ret d s")
  from Cons.prems(1) [of d s] Cons.prems(2,3) h obtain el where r: "r = Inr el"
    by auto
  have "frame s s1"
    using frame_renderElement [of s ret d] h by simp
  from frame_live [OF this Cons.prems(2)] Cons.prems(3)
  have "model s1 \<noteq> None" and "length (cells s1) = n" by simp_all
  then have "fst (renderChildren ret ds s1) = Inr ()"
    using Cons.prems(1) by (intro Cons.IH) auto
  with h r show ?case by simp
qed

lemma renderElement_returns:
  assumes "model s \<noteq> None" and "bound_ok (length (cells s)) t" and "callable t"
  shows "\<exists>el. fst (renderElement ret t s) = Inr el"
  using assms
proof (induction t arbitrary: s)
  case (TDef tg tx attrs on children)
  let ?n = "length (cells s)"
  let ?el = "next_el s"
  let ?s0 = "log (Created ?el tg) (s\<lparr>next_el := Suc ?el\<rparr>)"
  let ?tx = "case tx of None \<Rightarrow> (Inr (), ?s0) | Some f \<Rightarrow> render_field ret f ?el TextUpdater ?s0"
  have m0: "model ?s0 \<noteq> None" and n0: "length (cells ?s0) = ?n"
    using TDef.prems(1) by (simp_all add: log_def)
  obtain r1 s1 where h1: "?tx = (r1, s1)" by (cases ?tx)
  have "fst ?tx = Inr ()"
  proof (cases tx)
    case None
    then show ?thesis by simp
  next
    case (Some f)
    with TDef.prems(2) n0 have "field_ok (length (cells ?s0)) f" by simp
    from render_field_returns [OF m0 this, of ret ?el TextUpdater] Some show ?thesis by simp
  qed
  with h1 have r1: "r1 = Inr ()" by simp
  have "frame ?s0 (snd ?tx)" by (rule frame_text)
  with h1 have f1: "frame ?s0 s1" by simp
  note l1 = frame_live [OF f1 m0]
  obtain r2 s2 where h2: "render_attributes ret attrs ?el s1 = (r2, s2)"
    by (cases "render_attributes ret attrs ?el s1")
  from TDef.prems(2) l1(2) n0 have "list_all (\<lambda>(a, f). field_ok (length (cells s1)) f) attrs"
    by simp
  from render_attributes_returns [OF l1(1) this, of ret ?el] h2 have r2: "r2 = Inr ()"
    by simp
  have f2: "frame s1 s2"
    using frame_render_attributes [of s1 ret attrs ?el] h2 by simp
  note l2 = frame_live [OF f2 l1(1)]
  obtain r3 s3 where h3: "render_on on ?el s2 = (r3, s3)"
    by (cases "render_on on ?el s2")
  from TDef.prems(3) render_on_returns [of on ?el s2] h3 have r3: "r3 = Inr ()"
    by simp
  have f3: "frame s2 s3"
    using frame_render_on [of s2 on ?el] h3 by simp
  note l3 = frame_live [OF f3 l2(1)]
  have len3: "length (cells s3) = ?n"
    using l3(2) l2(2) l1(2) n0 by simp
  have "fst (renderChildren ret children s3) = Inr ()"
  proof (rule renderChildren_returns_if [where n = ?n])
    fix d and s' :: view
    assume d: "d \<in> set children" and m: "model s' \<noteq> None" and n: "length (cells s') = ?n"
    from TDef.prems(2,3) d have "bound_ok (length (cells s')) d" and "callable d"
      by (simp_all add: list_all_iff n)
    from TDef.IH [OF d m this] show "\<exists>el. fst (renderElement ret d s') = Inr el" .
  next
    show "model s3 \<noteq> None" by (rule l3(1))
    show "length (cells s3) = ?n" by (rule len3)
  qed
  then obtain s4 where h4: "renderChildren ret children s3 = (Inr (), s4)"
    by (cases "renderChildren ret children s3") simp
  from h1 r1 h2 r2 h3 r3 h4 have "fst (renderElement ret (TDef tg tx attrs on children) s) = Inr ?el"
    by (simp add: Let_def)
  then show ?case by blast
qed

lemma render_returns:
  assumes "template s = Some t" and "model s \<noteq> None" and "bound_ok (length (cells s)) t"
  shows "\<exists>el. fst (render ret s) = Inr el"
proof -
  let ?t = "prepareElementListeners t"
  let ?s2 = "s\<lparr>template := Some ?t, u_template := Some ?t\<rparr>"
  have "\<exists>el. fst (renderElement ret ?t ?s2) = Inr el"
    using assms by (intro renderElement_returns) (simp_all add: bound_ok_prepare callable_prepare)
  then obtain el s3 where "renderElement ret ?t ?s2 = (Inr el, s3)"
    by (cases "renderElement ret ?t ?s2") auto
  with assms(1) show ?thesis
    by (simp add: render_template)
qed

lemma render_Inr_cells:
  assumes "render ret s = (Inr el, s')"
  shows "length (cells s') = length (cells s)"
proof -
  from assms obtain t0 where t0: "template s = Some t0"
    by (cases "template s") (auto simp: render_def)
  let ?t = "prepareElementListeners t0"
  let ?s2 = "s\<lparr>template := Some ?t, u_template := Some ?t\<rparr>"
  have "frame ?s2 (snd (renderElement ret ?t ?s2))"
    by (rule frame_renderElement)
  then have "length (cells (snd (renderElement ret ?t ?s2))) = length (cells s)"
    by (simp add: frame_def)
  with assms t0 show ?thesis
    by (auto simp: render_template split: prod.splits sum.splits)
qed

text \<open>
  C7. With a template: as long as no element is cached the accessor is \<open>render\<close>, so the
  first read creates a new element, logs its creation and caches it; once an element is
  cached the accessor returns it and leaves the View as it is. So whenever the accessor
  returns an element, that element is cached afterwards, and reading the accessor again
  returns the same element with nothing rendered again. On a View whose model is there and
  whose bindings come from \<open>bind\<close>, the accessor returns an element, and so does
  \<open>render\<close>, also a second time. \<open>render\<close> itself is not memoized: a second call prepares the
  listeners of the definition once more, creates a new element, different from the first,
  and caches that one.
\<close>

theorem el_cached_render_not_memoized:
  assumes "template s = Some t"
  shows "(u_el s = None \<longrightarrow> get_el ret s = render ret s) \<and>
         (\<forall>e. u_el s = Some e \<longrightarrow> get_el ret s = (Inr e, s)) \<and>
         (\<forall>e s1. u_el s = None \<and> get_el ret s = (Inr e, s1) \<longrightarrow>
            e = next_el s \<and> Created e (tag_of t) \<in> set (trace s1) \<and> next_el s < next_el s1) \<and>
         (\<forall>e s1. get_el ret s = (Inr e, s1) \<longrightarrow>
            u_el s1 = Some e \<and> get_el ret s1 = (Inr e, s1)) \<and>
         (model s \<noteq> None \<and> bound_ok (length (cells s)) t \<longrightarrow>
            (\<exists>e s1. get_el ret s = (Inr e, s1)) \<and>
            (\<exists>e1 s1 e2 s2. render ret s = (Inr e1, s1) \<and> render ret s1 = (Inr e2, s2))) \<and>
         (\<forall>e1 s1 e2 s2. render ret s = (Inr e1, s1) \<and> render ret s1 = (Inr e2, s2) \<longrightarrow>
            e1 = next_el s \<and> u_el s1 = Some e1 \<and>
            e2 = next_el s1 \<and> u_el s2 = Some e2 \<and> e1 < e2 \<and>
            (\<exists>tg. Created e2 tg \<in> set (trace s2)) \<and>
            template s2 = Some (prepareElementListeners (prepareElementListeners t)))"
proof (intro conjI allI impI)
  assume "u_el s = None"
  then show "get_el ret s = render ret s" by (simp add: get_el_def)
next
  fix e
  assume "u_el s = Some e"
  then show "get_el ret s = (Inr e, s)" by (rule get_el_cached)
next
  fix e s1
  assume a: "u_el s = None \<and> get_el ret s = (Inr e, s1)"
  then have r: "render ret s = (Inr e, s1)" by (auto simp: get_el_def)
  let ?t = "prepareElementListeners t"
  let ?s2 = "s\<lparr>template := Some ?t, u_template := Some ?t\<rparr>"
  from r assms obtain s3 where re: "renderElement ret ?t ?s2 = (Inr e, s3)"
    and s1: "s1 = s3\<lparr>u_el := Some e\<rparr>"
    by (auto simp: render_template split: prod.splits sum.splits)
  show "e = next_el s" using r by (rule render_Inr(1))
  have "Created (next_el ?s2) (tag_of ?t) \<in> set (trace (snd (renderElement ret ?t ?s2)))"
    by (rule renderElement_trace)
  with re s1 renderElement_Inr [OF re] show "Created e (tag_of t) \<in> set (trace s1)"
    by simp
  show "next_el s < next_el s1" using r by (rule render_Inr(3))
next
  fix e s1
  assume "get_el ret s = (Inr e, s1)"
  then show "u_el s1 = Some e" by (rule get_el_Inr)
next
  fix e s1
  assume "get_el ret s = (Inr e, s1)"
  then have "u_el s1 = Some e" by (rule get_el_Inr)
  then show "get_el ret s1 = (Inr e, s1)" by (rule get_el_cached)
next
  assume live: "model s \<noteq> None \<and> bound_ok (length (cells s)) t"
  from render_returns [OF assms, of ret] live obtain e1 s1 where r1: "render ret s = (Inr e1, s1)"
    by (cases "render ret s") auto
  show "\<exists>e s1. get_el ret s = (Inr e, s1)"
  proof (cases "u_el s")
    case None
    with r1 show ?thesis by (simp add: get_el_def)
  next
    case (Some e)
    then show ?thesis by (simp add: get_el_def)
  qed
next
  assume live: "model s \<noteq> None \<and> bound_ok (length (cells s)) t"
  from render_returns [OF assms, of ret] live obtain e1 s1 where r1: "render ret s = (Inr e1, s1)"
    by (cases "render ret s") auto
  have "template s1 = Some (prepareElementListeners t)"
    using r1 assms by (rule render_Inr_template)
  moreover have "model s1 \<noteq> None"
    using render_Inr(5) [OF r1] live by simp
  moreover have "bound_ok (length (cells s1)) (prepareElementListeners t)"
    using render_Inr_cells [OF r1] live by (simp add: bound_ok_prepare)
  ultimately have "\<exists>el. fst (render ret s1) = Inr el"
    by (rule render_returns)
  then obtain e2 s2 where "render ret s1 = (Inr e2, s2)"
    by (cases "render ret s1") auto
  with r1 show "\<exists>e1 s1 e2 s2. render ret s = (Inr e1, s1) \<and> render ret s1 = (Inr e2, s2)"
    by blast
next
  fix e1 s1 e2 s2
  assume "render ret s = (Inr e1, s1) \<and> render ret s1 = (Inr e2, s2)"
  then have r1: "render ret s = (Inr e1, s1)" and r2: "render ret s1 = (Inr e2, s2)"
    by simp_all
  note a = render_Inr [OF r1] and b = render_Inr [OF r2]
  have t1: "template s1 = Some (prepareElementListeners t)"
    using r1 assms by (rule render_Inr_template)
  show "e1 = next_el s" by (rule a(1))
  show "u_el s1 = Some e1" by (rule a(2))
  show "e2 = next_el s1" by (rule b(1))
  show "u_el s2 = Some e2" by (rule b(2))
  show "e1 < e2" using a(1) a(3) b(1) by simp
  show "\<exists>tg. Created e2 tg \<in> set (trace s2)" by (rule b(7))
  show "template s2 = Some (prepareElementListeners (prepareElementListeners t))"
    using r2 t1 by (rule render_Inr_template)
qed

text \<open>
  On the View that declares a listener, never rendered: the first read of the accessor is
  the render, it returns the new element 0, caches it and logs its creation; the second read
  returns element 0 and changes nothing; two calls of \<open>render\<close> return elements 0 and 1.
\<close>

theorem el_cached_render_not_memoized_witness:
  "template click_view = Some (TDef ''p'' None [] [(''click@span'', Callback 3)] []) \<and>
   u_el click_view = None \<and> next_el click_view = 0 \<and>
   model click_view \<noteq> None \<and>
   bound_ok (length (cells click_view)) (TDef ''p'' None [] [(''click@span'', Callback 3)] []) \<and>
   get_el ret0 click_view = render ret0 click_view \<and>
   fst (get_el ret0 click_view) = Inr 0 \<and>
   u_el (snd (get_el ret0 click_view)) = Some 0 \<and>
   trace (snd (get_el ret0 click_view)) =
     [Created 0 ''p'',
      Subscribed (ElemObj 0) (Some ''click'') (DOMListener (Callback 3) (Some ''span''))] \<and>
   get_el ret0 (snd (get_el ret0 click_view)) = (Inr 0, snd (get_el ret0 click_view)) \<and>
   fst (render ret0 click_view) = Inr 0 \<and>
   fst (render ret0 (snd (render ret0 click_view))) = Inr 1 \<and>
   u_el (snd (render ret0 (snd (render ret0 click_view)))) = Some 1"
proof -
  have t: "template click_view = Some (TDef ''p'' None [] [(''click@span'', Callback 3)] [])"
    and u: "u_el click_view = None" and n: "next_el click_view = 0"
    and m: "model click_view \<noteq> None"
    and k: "bound_ok (length (cells click_view)) (TDef ''p'' None [] [(''click@span'', Callback 3)] [])"
    by (simp_all add: click_view_def View_def)
  note main = el_cached_render_not_memoized [OF t, of ret0]
  from main u have g: "get_el ret0 click_view = render ret0 click_view"
    by blast
  have f1: "fst (render ret0 click_view) = Inr 0"
    by (simp add: click_view_render)
  have f2: "fst (render ret0 (snd (render ret0 click_view))) = Inr 1"
    by (simp add: click_view_render_twice)
  have tr: "trace (snd (render ret0 click_view)) =
     [Created 0 ''p'',
      Subscribed (ElemObj 0) (Some ''click'') (DOMListener (Callback 3) (Some ''span''))]"
    by (simp add: click_view_render)
  have r1: "render ret0 click_view = (Inr 0, snd (render ret0 click_view))"
    using f1 by (cases "render ret0 click_view") simp
  have r2: "render ret0 (snd (render ret0 click_view)) =
      (Inr 1, snd (render ret0 (snd (render ret0 click_view))))"
    using f2 by (cases "render ret0 (snd (render ret0 click_view))") simp
  from g r1 have g1: "get_el ret0 click_view = (Inr 0, snd (render ret0 click_view))"
    by simp
  from main g1
  have c: "u_el (snd (render ret0 click_view)) = Some 0 \<and>
      get_el ret0 (snd (render ret0 click_view)) = (Inr 0, snd (render ret0 click_view))"
    by blast
  from main r1 r2 have d: "u_el (snd (render ret0 (snd (render ret0 click_view)))) = Some 1"
    by blast
  have s: "snd (get_el ret0 click_view) = snd (render ret0 click_view)"
    using g by simp
  have "fst (get_el ret0 click_view) = Inr 0"
    using g1 by simp
  moreover have "u_el (snd (get_el ret0 click_view)) = Some 0"
    using c s by simp
  moreover have "trace (snd (get_el ret0 click_view)) =
     [Created 0 ''p'',
      Subscribed (ElemObj 0) (Some ''click'') (DOMListener (Callback 3) (Some ''span''))]"
    using tr s by simp
  moreover have "get_el ret0 (snd (get_el ret0 click_view)) = (Inr 0, snd (get_el ret0 click_view))"
    using c s by simp
  ultimately show ?thesis
    using t u n m k g f1 f2 d by blast
qed

section \<open>The bindings on concrete views\<close>

lemma bound_view_attached:
  "attachModel ret0 0 ''x'' 5 (AttrUpdater ''class'') bound_view =
     (Inr (),
      bound_view\<lparr>cells := [Some (AttrUpdater ''class'')],
        listeners := [(ModelObj, Some ''change:x'', OnModelChange 0 5 (AttrUpdater ''class''))],
        trace := [Subscribed ModelObj (Some ''change:x'') (OnModelChange 0 5 (AttrUpdater ''class'')),
                  Called (AttrUpdater ''class'') 5 (Str ''a'')]\<rparr>)"
  by (simp add: bound_view_def View_def bind_def attachModel_def cell_def listenTo_def
      onModelChange_def log_def prop_of_def ret0_def)

theorem attach_subscribes_then_runs_once_witness:
  "model bound_view = Some [(''x'', Str ''a'')] \<and> 0 < length (cells bound_view) \<and>
   fst (attachModel ret0 0 ''x'' 5 (AttrUpdater ''class'') bound_view) = Inr () \<and>
   trace (snd (attachModel ret0 0 ''x'' 5 (AttrUpdater ''class'') bound_view)) =
     [Subscribed ModelObj (Some ''change:x'') (OnModelChange 0 5 (AttrUpdater ''class'')),
      Called (AttrUpdater ''class'') 5 (Str ''a'')] \<and>
   fst (notify_change ret0 matches0 ''x'' (Str ''b'')
          (snd (attachModel ret0 0 ''x'' 5 (AttrUpdater ''class'') bound_view))) = Inr () \<and>
   trace (snd (notify_change ret0 matches0 ''x'' (Str ''b'')
                 (snd (attachModel ret0 0 ''x'' 5 (AttrUpdater ''class'') bound_view)))) =
     [Subscribed ModelObj (Some ''change:x'') (OnModelChange 0 5 (AttrUpdater ''class'')),
      Called (AttrUpdater ''class'') 5 (Str ''a''),
      Called (AttrUpdater ''class'') 5 (Str ''b'')]"
proof -
  have m: "model bound_view = Some [(''x'', Str ''a'')]"
    and c: "0 < length (cells bound_view)"
    and t: "trace bound_view = []" and e: "cell bound_view 0 = None"
    by (simp_all add: bound_view_def View_def bind_def cell_def)
  from attach_subscribes_then_runs_once [OF m c, of ret0 "''x''" 5 "AttrUpdater ''class''" matches0]
  obtain s1 where "attachModel ret0 0 ''x'' 5 (AttrUpdater ''class'') bound_view = (Inr (), s1)"
    and "trace s1 =
      trace bound_view @
        Subscribed ModelObj (Some (''change:'' @ ''x'')) (OnModelChange 0 5 (AttrUpdater ''class'')) #
        handler_calls ret0 (case cell bound_view 0 of Some f \<Rightarrow> f | None \<Rightarrow> AttrUpdater ''class'')
          (AttrUpdater ''class'') 5 (prop_of [(''x'', Str ''a'')] ''x'')"
    by blast
  with t e have a: "fst (attachModel ret0 0 ''x'' 5 (AttrUpdater ''class'') bound_view) = Inr () \<and>
   trace (snd (attachModel ret0 0 ''x'' 5 (AttrUpdater ''class'') bound_view)) =
     [Subscribed ModelObj (Some ''change:x'') (OnModelChange 0 5 (AttrUpdater ''class'')),
      Called (AttrUpdater ''class'') 5 (Str ''a'')]"
    by (simp add: handler_calls_def ret0_def prop_of_def)
  have n: "notify_change ret0 matches0 ''x'' (Str ''b'')
          (snd (attachModel ret0 0 ''x'' 5 (AttrUpdater ''class'') bound_view)) =
      (Inr (), (snd (attachModel ret0 0 ''x'' 5 (AttrUpdater ''class'') bound_view))\<lparr>trace :=
         [Subscribed ModelObj (Some ''change:x'') (OnModelChange 0 5 (AttrUpdater ''class'')),
          Called (AttrUpdater ''class'') 5 (Str ''a''),
          Called (AttrUpdater ''class'') 5 (Str ''b'')]\<rparr>)"
    by (simp add: bound_view_attached)
       (simp add: notify_change_def emit_def subscribed_def onModelChange_def cell_def log_def
          ret0_def bound_view_def View_def bind_def)
  from m c a n show ?thesis
    by simp
qed

lemma bare_view_bound:
  "bind ''x'' (Some (UserFn 2)) bare_view = (Bound 0 ''x'', bare_view\<lparr>cells := [Some (UserFn 2)]\<rparr>)"
  by (simp add: bind_def bare_view_def View_def)

lemma bare_view_attached:
  "attachModel ret1 0 ''x'' 5 TextUpdater (bare_view\<lparr>cells := [Some (UserFn 2)]\<rparr>) =
     (Inr (),
      bare_view\<lparr>cells := [Some (UserFn 2)],
        listeners := [(ModelObj, Some ''change:x'', OnModelChange 0 5 TextUpdater)],
        trace := [Subscribed ModelObj (Some ''change:x'') (OnModelChange 0 5 TextUpdater),
                  Called (UserFn 2) 5 (Str ''a''),
                  Called TextUpdater 5 (Str ''shown'')]\<rparr>)"
  by (simp add: bare_view_def View_def attachModel_def cell_def listenTo_def
      onModelChange_def log_def prop_of_def ret1_def)

theorem handler_calls_callback_then_updater_witness:
  "bind ''x'' (Some (UserFn 2)) bare_view = (Bound 0 ''x'', bare_view\<lparr>cells := [Some (UserFn 2)]\<rparr>) \<and>
   run_handler ret0 matches0 (OnModelChange 0 5 TextUpdater) (Str ''b'')
       (bare_view\<lparr>cells := [Some (UserFn 2)]\<rparr>) =
     (Inr (), bare_view\<lparr>cells := [Some (UserFn 2)], trace := [Called (UserFn 2) 5 (Str ''b'')]\<rparr>) \<and>
   run_handler ret1 matches0 (OnModelChange 0 5 TextUpdater) (Str ''b'')
       (bare_view\<lparr>cells := [Some (UserFn 2)]\<rparr>) =
     (Inr (), bare_view\<lparr>cells := [Some (UserFn 2)],
        trace := [Called (UserFn 2) 5 (Str ''b''), Called TextUpdater 5 (Str ''shown'')]\<rparr>) \<and>
   model (bare_view\<lparr>cells := [Some (UserFn 2)]\<rparr>) = Some [(''x'', Str ''a'')] \<and>
   fst (attachModel ret1 0 ''x'' 5 TextUpdater (bare_view\<lparr>cells := [Some (UserFn 2)]\<rparr>)) = Inr () \<and>
   notify_change ret1 matches0 ''x'' (Str ''b'')
       (snd (attachModel ret1 0 ''x'' 5 TextUpdater (bare_view\<lparr>cells := [Some (UserFn 2)]\<rparr>))) =
     (Inr (),
      (snd (attachModel ret1 0 ''x'' 5 TextUpdater (bare_view\<lparr>cells := [Some (UserFn 2)]\<rparr>)))\<lparr>trace :=
         [Subscribed ModelObj (Some ''change:x'') (OnModelChange 0 5 TextUpdater),
          Called (UserFn 2) 5 (Str ''a''), Called TextUpdater 5 (Str ''shown''),
          Called (UserFn 2) 5 (Str ''b''), Called TextUpdater 5 (Str ''shown'')]\<rparr>)"
proof -
  let ?s1 = "bare_view\<lparr>cells := [Some (UserFn 2)]\<rparr>"
  have l: "length (cells bare_view) = 0" and t: "trace ?s1 = []"
    and m: "model ?s1 = Some [(''x'', Str ''a'')]"
    by (simp_all add: bare_view_def View_def)
  have e: "exec r mt [] ?s1 = ?s1" for r mt
    by simp
  note main0 = handler_calls_callback_then_updater [OF bare_view_bound, of ret0 matches0]
  note main1 = handler_calls_callback_then_updater [OF bare_view_bound, of ret1 matches0]
  from main0 have "run_handler ret0 matches0 (OnModelChange (length (cells bare_view)) 5 TextUpdater) (Str ''b'')
       (exec ret0 matches0 [] ?s1) =
     (Inr (),
      (exec ret0 matches0 [] ?s1)\<lparr>trace := trace (exec ret0 matches0 [] ?s1) @
         Called (UserFn 2) 5 (Str ''b'') #
           (if ret0 (UserFn 2) 5 (Str ''b'') = Undefined then []
            else [Called TextUpdater 5 (ret0 (UserFn 2) 5 (Str ''b''))])\<rparr>)"
    by blast
  then have h0: "run_handler ret0 matches0 (OnModelChange 0 5 TextUpdater) (Str ''b'') ?s1 =
     (Inr (), bare_view\<lparr>cells := [Some (UserFn 2)], trace := [Called (UserFn 2) 5 (Str ''b'')]\<rparr>)"
    using l t by (simp add: ret0_def)
  from main1 have "run_handler ret1 matches0 (OnModelChange (length (cells bare_view)) 5 TextUpdater) (Str ''b'')
       (exec ret1 matches0 [] ?s1) =
     (Inr (),
      (exec ret1 matches0 [] ?s1)\<lparr>trace := trace (exec ret1 matches0 [] ?s1) @
         Called (UserFn 2) 5 (Str ''b'') #
           (if ret1 (UserFn 2) 5 (Str ''b'') = Undefined then []
            else [Called TextUpdater 5 (ret1 (UserFn 2) 5 (Str ''b''))])\<rparr>)"
    by blast
  then have h1: "run_handler ret1 matches0 (OnModelChange 0 5 TextUpdater) (Str ''b'') ?s1 =
     (Inr (), bare_view\<lparr>cells := [Some (UserFn 2)],
        trace := [Called (UserFn 2) 5 (Str ''b''), Called TextUpdater 5 (Str ''shown'')]\<rparr>)"
    using l t by (simp add: ret1_def)
  have a: "fst (attachModel ret1 0 ''x'' 5 TextUpdater ?s1) = Inr ()"
    by (simp add: bare_view_attached)
  have n: "notify_change ret1 matches0 ''x'' (Str ''b'') (snd (attachModel ret1 0 ''x'' 5 TextUpdater ?s1)) =
     (Inr (),
      (snd (attachModel ret1 0 ''x'' 5 TextUpdater ?s1))\<lparr>trace :=
         [Subscribed ModelObj (Some ''change:x'') (OnModelChange 0 5 TextUpdater),
          Called (UserFn 2) 5 (Str ''a''), Called TextUpdater 5 (Str ''shown''),
          Called (UserFn 2) 5 (Str ''b''), Called TextUpdater 5 (Str ''shown'')]\<rparr>)"
    by (simp add: bare_view_attached)
       (simp add: notify_change_def emit_def subscribed_def onModelChange_def cell_def log_def
          ret1_def bare_view_def View_def Let_def)
  from bare_view_bound h0 h1 m a n show ?thesis
    by blast
qed

subsection \<open>destroy on a View that was never rendered and has a bound text\<close>

text \<open>
  The failure of C8 in general: whenever the text of the template is bound and the View was
  never rendered, \<open>destroy\<close> throws a TypeError; the regions stay in the collection and the
  subscriptions are not revoked.
\<close>

lemma destroy_unrendered_bound_throws:
  assumes "template s = Some (TDef tg (Some (Bound c p)) attrs on children)" and "u_el s = None"
  shows "fst (destroy ret s) = Inl TypeError \<and> model (snd (destroy ret s)) = None \<and>
         regions (snd (destroy ret s)) = regions s \<and>
         prefix (listeners s) (listeners (snd (destroy ret s)))"
proof -
  let ?t = "prepareElementListeners (TDef tg (Some (Bound c p)) attrs on children)"
  let ?s1 = "s\<lparr>model := None, template := Some ?t, u_template := Some ?t\<rparr>"
  let ?s0 = "log (Created (next_el ?s1) tg) (?s1\<lparr>next_el := Suc (next_el ?s1)\<rparr>)"
  obtain r s2 where a: "attachModel ret c p (next_el ?s1) TextUpdater ?s0 = (r, s2)"
    by (cases "attachModel ret c p (next_el ?s1) TextUpdater ?s0")
  then have r: "r = Inl TypeError"
    by (auto simp: attachModel_def Let_def listenTo_def log_def)
  have "frame ?s0 (snd (attachModel ret c p (next_el ?s1) TextUpdater ?s0))"
    by (rule frame_attachModel)
  then have "frame ?s0 s2"
    by (simp only: a snd_conv)
  moreover have "frame ?s1 ?s0" by (rule frame_create)
  ultimately have f: "frame ?s1 s2" by (rule frame_trans [rotated])
  from a r have "renderElement ret ?t ?s1 = (Inl TypeError, s2)"
    by (simp add: Let_def)
  with assms have "destroy ret s = (Inl TypeError, s2)"
    by (simp add: destroy_unrendered render_template)
  with f show ?thesis
    by (simp add: frame_def)
qed

end
